theory Spec2Isabelle
  imports Main "HOL-Library.Sublist"
begin

section \<open>The bookmark manager of the Electric Book template (assets/js/bookmarks.js)\<close>

text \<open>
  The script keeps a reader's bookmarks in the browser: records in \<^verbatim>\<open>localStorage\<close>,
  a session identifier and a fingerprint index in \<^verbatim>\<open>sessionStorage\<close>, and markers on
  the elements of the page. Each JavaScript function is embedded as a HOL function of the
  same name that takes the state it reads and returns the state it leaves; an exception is
  a value of type \<open>error\<close>.
\<close>

subsection \<open>Strings\<close>

text \<open>\<^verbatim>\<open>key.startsWith(p)\<close> and \<^verbatim>\<open>key.includes(s)\<close> (a contiguous substring).\<close>

definition startsWith :: "string \<Rightarrow> string \<Rightarrow> bool" where
  "startsWith key p = prefix p key"

definition includes_str :: "string \<Rightarrow> string \<Rightarrow> bool" where
  "includes_str key s = sublist s key"

text \<open>
  \<^verbatim>\<open>url.split('#')[0]\<close>: the characters before the first \<^verbatim>\<open>#\<close>, the whole string when
  there is none.
\<close>

definition split_hash_0 :: "string \<Rightarrow> string" where
  "split_hash_0 url = takeWhile (\<lambda>c. c \<noteq> CHR ''#'') url"

text \<open>
  \<^verbatim>\<open>s.lastIndexOf(c)\<close> for a one-character search string: the greatest index at which
  \<open>c\<close> occurs, \<open>-1\<close> when it does not occur.
\<close>

fun lastIndexOf :: "string \<Rightarrow> char \<Rightarrow> int" where
  "lastIndexOf [] c = -1"
| "lastIndexOf (x # xs) c =
     (let r = lastIndexOf xs c in
      if r \<noteq> -1 then r + 1 else if x = c then 0 else -1)"

text \<open>
  \<^verbatim>\<open>s.slice(0, e)\<close>: a negative end counts from the end of the string, and both are
  clamped to the string.
\<close>

definition slice_0 :: "string \<Rightarrow> int \<Rightarrow> string" where
  "slice_0 s e = (if e < 0 then take (nat (int (length s) + e)) s else take (nat e) s)"

text \<open>
  The decimal numeral of a timestamp, which is what JavaScript's ToString gives for the
  integers \<^verbatim>\<open>Date.now()\<close> returns.
\<close>

definition digit :: "nat \<Rightarrow> char" where
  "digit d = ''0123456789'' ! d"

fun ToString :: "nat \<Rightarrow> string" where
  "ToString n = (if n < 10 then [digit n] else ToString (n div 10) @ [digit (n mod 10)])"

declare ToString.simps [simp del]

subsection \<open>Data model\<close>

datatype error = SyntaxError | TypeError

text \<open>
  The session identifier as the code meets it. \<^verbatim>\<open>Date.now()\<close> is a Number;
  \<^verbatim>\<open>sessionStorage\<close> holds strings, so what \<^verbatim>\<open>getItem('sessionDate')\<close> gives back is the
  String of that number. \<open>Timestamp n\<close> is the Number \<open>n\<close>, \<open>Stored n\<close> is the String
  \<open>ToString n\<close>. The code compares identifiers with \<^verbatim>\<open>===\<close> and \<^verbatim>\<open>!==\<close>, which never
  identify a Number with a String: that is equality of this datatype. \<open>parseFloat\<close> gives
  the number itself, as the code's does for timestamps below \<open>2 ^ 53\<close>.
\<close>

datatype sessionDate = Timestamp nat | Stored nat

fun parseFloat :: "sessionDate \<Rightarrow> nat" where
  "parseFloat (Timestamp n) = n"
| "parseFloat (Stored n) = n"

fun ToString_sd :: "sessionDate \<Rightarrow> string" where
  "ToString_sd (Timestamp n) = ToString n"
| "ToString_sd (Stored n) = ToString n"

text \<open>The bookmark object built by \<^verbatim>\<open>ebBookmarksSetBookmark\<close> (lines 478-509).\<close>

record bookmark =
  sessionDate :: sessionDate
  type' :: string
  bookTitle :: string
  pageTitle :: string
  description :: string
  id' :: string
  fingerprint :: "string option"
  location :: string
  key' :: string

text \<open>
  A value of \<^verbatim>\<open>localStorage\<close>: the JSON text of a bookmark object, or a string written by
  something else, taken to be no JSON text at all, so that parsing it raises SyntaxError
  (JSON text that is no bookmark object is outside the model).
\<close>

datatype item = Record bookmark | Raw string

fun JSON_parse :: "item \<Rightarrow> error + bookmark" where
  "JSON_parse (Record b) = Inr b"
| "JSON_parse (Raw s) = Inl SyntaxError"

text \<open>
  \<^verbatim>\<open>localStorage\<close> is the list of its entries in the order \<^verbatim>\<open>Object.keys\<close> enumerates
  them, which the browser chooses. \<open>setItem\<close> overwrites in place and appends a new key.
\<close>

type_synonym storage = "(string \<times> item) list"

definition getItem :: "storage \<Rightarrow> string \<Rightarrow> item option" where
  "getItem ls k = map_of ls k"

definition removeItem :: "storage \<Rightarrow> string \<Rightarrow> storage" where
  "removeItem ls k = filter (\<lambda>kv. fst kv \<noteq> k) ls"

fun setItem :: "storage \<Rightarrow> string \<Rightarrow> item \<Rightarrow> storage" where
  "setItem [] k v = [(k, v)]"
| "setItem ((k', v') # ls) k v =
     (if k' = k then (k, v) # ls else (k', v') # setItem ls k v)"

text \<open>An element of the document, with the attributes the script reads and writes.\<close>

record element =
  id_attr :: "string option"
  data_fingerprint :: "string option"
  innerText :: string
  data_bookmarked :: "string option"
  data_bookmark_type :: "string option"
  title_attr :: "string option"
  data_bookmark :: "string option"

text \<open>
  The state: \<^verbatim>\<open>localStorage\<close>, the two items of \<^verbatim>\<open>sessionStorage\<close>, the page
  (its elements in document order, \<^verbatim>\<open>document.body.dataset.title\<close>, \<^verbatim>\<open>document.title\<close>,
  \<^verbatim>\<open>window.location\<close>), the records rendered in the two list panels, and the number
  of \<^verbatim>\<open>window.alert\<close> calls made so far.
\<close>

record state =
  localStorage :: storage
  sessionDate_item :: "nat option"
  index_of_bookmarks :: "(string \<times> string) list option"
  elements :: "element list"
  body_title :: string
  document_title :: string
  location_href :: string
  location_hash :: string
  bookmarksList :: "bookmark list"
  lastLocationsList :: "bookmark list"
  alerts :: nat

subsection \<open>SessionManager: \<^verbatim>\<open>ebBookmarksSessionDate\<close> (lines 118-130)\<close>

text \<open>
  \<open>now\<close> is what \<^verbatim>\<open>Date.now()\<close> returns if the function reads the clock. The stored
  string is a non-empty numeral, so the test \<^verbatim>\<open>if (sessionStorage.getItem('sessionDate'))\<close>
  succeeds exactly when the item exists.
\<close>

definition ebBookmarksSessionDate :: "nat \<Rightarrow> state \<Rightarrow> sessionDate \<times> state" where
  "ebBookmarksSessionDate now s =
     (case sessionDate_item s of
        Some n \<Rightarrow> (Stored n, s)
      | None \<Rightarrow> (Timestamp now, s\<lparr>sessionDate_item := Some now\<rparr>))"

subsection \<open>LastLocationPolicy: \<^verbatim>\<open>ebBookmarksCleanLastLocations\<close> (lines 133-187)\<close>

definition lastLocation_key :: "string \<Rightarrow> bool" where
  "lastLocation_key k = (startsWith k ''bookmark-'' \<and> includes_str k ''-lastLocation-'')"

text \<open>Lines 138-145: the records of the title, in the order of the keys.\<close>

fun collect_lastLocations :: "string \<Rightarrow> storage \<Rightarrow> error + bookmark list" where
  "collect_lastLocations t [] = Inr []"
| "collect_lastLocations t ((k, v) # ls) =
     (if lastLocation_key k then
        (case JSON_parse v of
           Inl e \<Rightarrow> Inl e
         | Inr b \<Rightarrow>
            (case collect_lastLocations t ls of
               Inl e \<Rightarrow> Inl e
             | Inr bs \<Rightarrow> Inr (if t = bookTitle b then b # bs else bs)))
      else collect_lastLocations t ls)"

text \<open>
  Lines 157-161: the filter calls \<^verbatim>\<open>ebBookmarksSessionDate()\<close> once for each element,
  so the first call may create the session.
\<close>

fun previousSessionLocations :: "nat \<Rightarrow> bookmark list \<Rightarrow> state \<Rightarrow> nat \<times> state" where
  "previousSessionLocations now [] s = (0, s)"
| "previousSessionLocations now (l # ls) s =
     (let (d, s1) = ebBookmarksSessionDate now s;
          (n, s2) = previousSessionLocations now ls s1
      in ((if sessionDate l \<noteq> d then 1 else 0) + n, s2))"

text \<open>
  Lines 149-165: slice the last two, sort them by the number in their sessionDate, and
  drop the first if more than one is not of the current session.
\<close>

definition retained_lastLocations :: "nat \<Rightarrow> bookmark list \<Rightarrow> state \<Rightarrow> bookmark list \<times> state" where
  "retained_lastLocations now bs s =
     (let sliced = drop (length bs - 2) bs;
          sorted = sort_key (\<lambda>b. parseFloat (sessionDate b)) sliced;
          (n, s1) = previousSessionLocations now sorted s
      in (if n > 1 then drop 1 sorted else sorted, s1))"

text \<open>Lines 168-186: remove the entries of the title whose key includes no retained sessionDate.\<close>

definition matches :: "string \<Rightarrow> bookmark list \<Rightarrow> nat" where
  "matches k lastLocations =
     length (filter (\<lambda>l. includes_str k (ToString_sd (sessionDate l))) lastLocations)"

fun remove_unmatched :: "string \<Rightarrow> bookmark list \<Rightarrow> storage \<Rightarrow> error + storage" where
  "remove_unmatched t lastLocations [] = Inr []"
| "remove_unmatched t lastLocations ((k, v) # ls) =
     (if lastLocation_key k then
        (case JSON_parse v of
           Inl e \<Rightarrow> Inl e
         | Inr b \<Rightarrow>
            (case remove_unmatched t lastLocations ls of
               Inl e \<Rightarrow> Inl e
             | Inr ls' \<Rightarrow>
                Inr (if t = bookTitle b \<and> matches k lastLocations = 0 then ls'
                     else (k, v) # ls')))
      else
        (case remove_unmatched t lastLocations ls of
           Inl e \<Rightarrow> Inl e
         | Inr ls' \<Rightarrow> Inr ((k, v) # ls')))"

definition ebBookmarksCleanLastLocations :: "nat \<Rightarrow> string \<Rightarrow> state \<Rightarrow> error + state" where
  "ebBookmarksCleanLastLocations now bookTitleToClean s =
     (case collect_lastLocations bookTitleToClean (localStorage s) of
        Inl e \<Rightarrow> Inl e
      | Inr bs \<Rightarrow>
         (let (lastLocations, s1) = retained_lastLocations now bs s in
          case remove_unmatched bookTitleToClean lastLocations (localStorage s1) of
            Inl e \<Rightarrow> Inl e
          | Inr ls' \<Rightarrow> Inr (s1\<lparr>localStorage := ls'\<rparr>)))"


text \<open>
  The entries of a title that the two loops of the function look at, and the test of the
  second loop, as functions of their own for stating properties.
\<close>

fun title_entries :: "string \<Rightarrow> storage \<Rightarrow> (string \<times> bookmark) list" where
  "title_entries t [] = []"
| "title_entries t ((k, Record b) # ls) =
     (if lastLocation_key k \<and> t = bookTitle b then (k, b) # title_entries t ls
      else title_entries t ls)"
| "title_entries t ((k, Raw r) # ls) = title_entries t ls"

fun unmatched :: "string \<Rightarrow> bookmark list \<Rightarrow> string \<times> item \<Rightarrow> bool" where
  "unmatched t lastLocations (k, Record b) =
     (lastLocation_key k \<and> t = bookTitle b \<and> matches k lastLocations = 0)"
| "unmatched t lastLocations (k, Raw r) = False"

text \<open>
  Keys as \<^verbatim>\<open>ebBookmarksSetBookmark\<close> writes them with timestamps of one length: among the
  last-location entries of a title, a key includes the sessionDate of its own record and
  of no other.
\<close>

definition own_sessionDate_only :: "string \<Rightarrow> storage \<Rightarrow> bool" where
  "own_sessionDate_only t ls =
     (\<forall>(k, b) \<in> set (title_entries t ls). \<forall>(k', b') \<in> set (title_entries t ls).
        includes_str k (ToString_sd (sessionDate b')) = (k = k'))"

subsection \<open>FingerprintIndex: \<^verbatim>\<open>ebBookmarksFingerprintID\<close> (lines 83-115)\<close>

text \<open>
  \<^verbatim>\<open>document.getElementById\<close>: the first element in document order with that non-empty
  id, or null.
\<close>

definition getElementById :: "state \<Rightarrow> string \<Rightarrow> element option" where
  "getElementById s i = (if i = [] then None else find (\<lambda>e. id_attr e = Some i) (elements s))"

text \<open>
  The three ways the function ends: \<^verbatim>\<open>return false\<close>, falling off the end after the
  alert (\<^verbatim>\<open>undefined\<close>), and \<^verbatim>\<open>return indexedID\<close>. The index is the object stored as JSON
  under \<^verbatim>\<open>index-of-bookmarks\<close>, an association list from fingerprint to id.
\<close>

datatype fingerprint_result = ReturnFalse | ReturnUndefined | ReturnID string

definition ebBookmarksFingerprintID :: "string \<Rightarrow> state \<Rightarrow> fingerprint_result \<times> state" where
  "ebBookmarksFingerprintID elementID s =
     (case getElementById s elementID of
        None \<Rightarrow> (ReturnFalse, s)
      | Some element \<Rightarrow>
         (case (data_fingerprint element, index_of_bookmarks s) of
            (Some fingerprintToCheck, Some indexOfBookmarks) \<Rightarrow>
              if fingerprintToCheck = [] then (ReturnFalse, s)
              else if map_of indexOfBookmarks fingerprintToCheck \<noteq> Some elementID
                then (ReturnUndefined, s\<lparr>alerts := alerts s + 1\<rparr>)
                else (ReturnID elementID, s)
          | _ \<Rightarrow> (ReturnFalse, s)))"

subsection \<open>DOMReconciler: marking and listing (lines 190-342)\<close>

definition ebBookmarksCheckForCurrentPage :: "state \<Rightarrow> string \<Rightarrow> bool" where
  "ebBookmarksCheckForCurrentPage s url = (split_hash_0 (location_href s) = split_hash_0 url)"

fun update_first :: "('a \<Rightarrow> bool) \<Rightarrow> ('a \<Rightarrow> 'a) \<Rightarrow> 'a list \<Rightarrow> 'a list" where
  "update_first P f [] = []"
| "update_first P f (x # xs) = (if P x then f x # xs else x # update_first P f xs)"

text \<open>
  Lines 218-227, the attributes set on the element to mark. The bookmark button that
  line 229 toggles on the element is no part of the state.
\<close>

definition mark_element :: "bookmark \<Rightarrow> element \<Rightarrow> element" where
  "mark_element bm e =
     e\<lparr>data_bookmarked := Some ''true'',
       title_attr := Some (description bm),
       data_bookmark_type :=
         Some (if data_bookmark_type e = Some ''userBookmark'' then ''userBookmark''
               else type' bm)\<rparr>"

text \<open>
  Lines 212-231. Setting an attribute of the null that \<^verbatim>\<open>getElementById\<close> returned raises
  TypeError.
\<close>

fun mark_each :: "bookmark list \<Rightarrow> state \<Rightarrow> error + state" where
  "mark_each [] s = Inr s"
| "mark_each (bm # bms) s =
     (if ebBookmarksCheckForCurrentPage s (location bm) then
        (case getElementById s (id' bm) of
           None \<Rightarrow> Inl TypeError
         | Some e \<Rightarrow>
            mark_each bms
              (s\<lparr>elements :=
                   update_first (\<lambda>e. id_attr e = Some (id' bm)) (mark_element bm) (elements s)\<rparr>))
      else mark_each bms s)"

definition ebBookmarksMarkBookmarks :: "bookmark list \<Rightarrow> state \<Rightarrow> error + state" where
  "ebBookmarksMarkBookmarks bookmarks s =
     mark_each bookmarks (s\<lparr>elements := map (\<lambda>e. e\<lparr>data_bookmarked := None\<rparr>) (elements s)\<rparr>)"

text \<open>
  Lines 251-322. A list panel is the list of the records it shows; the page is taken to
  have both panels.
\<close>

fun list_each :: "nat \<Rightarrow> bookmark list \<Rightarrow> state \<Rightarrow> error + state" where
  "list_each now [] s = Inr s"
| "list_each now (bm # bms) s =
     (case ebBookmarksCleanLastLocations now (bookTitle bm) s of
        Inl e \<Rightarrow> Inl e
      | Inr s1 \<Rightarrow>
         (if type' bm = ''lastLocation'' then
            (let (d, s2) = ebBookmarksSessionDate now s1 in
             if sessionDate bm = d then list_each now bms s2
             else list_each now bms (s2\<lparr>lastLocationsList := lastLocationsList s2 @ [bm]\<rparr>))
          else list_each now bms (s1\<lparr>bookmarksList := bookmarksList s1 @ [bm]\<rparr>)))"

definition ebBookmarksListBookmarks :: "nat \<Rightarrow> bookmark list \<Rightarrow> state \<Rightarrow> error + state" where
  "ebBookmarksListBookmarks now bookmarks s =
     list_each now bookmarks (s\<lparr>bookmarksList := [], lastLocationsList := []\<rparr>)"

subsection \<open>BookmarkStore (lines 345-516)\<close>

text \<open>
  Lines 353-361, over the keys as they were when the loop began: an entry removed in the
  meantime reads as null and is skipped.
\<close>

fun clean_titles :: "nat \<Rightarrow> string list \<Rightarrow> state \<Rightarrow> error + state" where
  "clean_titles now [] s = Inr s"
| "clean_titles now (k # ks) s =
     (if startsWith k ''bookmark-'' then
        (case getItem (localStorage s) k of
           None \<Rightarrow> clean_titles now ks s
         | Some v \<Rightarrow>
            (case JSON_parse v of
               Inl e \<Rightarrow> Inl e
             | Inr entry \<Rightarrow>
                (case ebBookmarksCleanLastLocations now (bookTitle entry) s of
                   Inl e \<Rightarrow> Inl e
                 | Inr s1 \<Rightarrow> clean_titles now ks s1)))
      else clean_titles now ks s)"

text \<open>Lines 364-376: the bookmarks shown to the user.\<close>

fun visible_bookmarks :: "nat \<Rightarrow> storage \<Rightarrow> state \<Rightarrow> error + bookmark list \<times> state" where
  "visible_bookmarks now [] s = Inr ([], s)"
| "visible_bookmarks now ((k, v) # ls) s =
     (if startsWith k ''bookmark-'' then
        (case JSON_parse v of
           Inl e \<Rightarrow> Inl e
         | Inr bm \<Rightarrow>
            if type' bm \<noteq> ''lastLocation'' then
              (case visible_bookmarks now ls s of
                 Inl e \<Rightarrow> Inl e
               | Inr (bms, s') \<Rightarrow> Inr (bm # bms, s'))
            else
              (let (d, s1) = ebBookmarksSessionDate now s in
               case visible_bookmarks now ls s1 of
                 Inl e \<Rightarrow> Inl e
               | Inr (bms, s') \<Rightarrow> Inr (if sessionDate bm \<noteq> d then bm # bms else bms, s')))
      else visible_bookmarks now ls s)"

definition ebBookmarksCheckForBookmarks :: "nat \<Rightarrow> state \<Rightarrow> error + state" where
  "ebBookmarksCheckForBookmarks now s =
     (case clean_titles now (map fst (localStorage s)) s of
        Inl e \<Rightarrow> Inl e
      | Inr s1 \<Rightarrow>
         (case visible_bookmarks now (localStorage s1) s1 of
            Inl e \<Rightarrow> Inl e
          | Inr (bookmarks, s2) \<Rightarrow>
             (case ebBookmarksMarkBookmarks bookmarks s2 of
                Inl e \<Rightarrow> Inl e
              | Inr s3 \<Rightarrow> ebBookmarksListBookmarks now bookmarks s3)))"

definition ebBookmarksDeleteBookmark :: "nat \<Rightarrow> bookmark \<Rightarrow> state \<Rightarrow> error + state" where
  "ebBookmarksDeleteBookmark now bookmark s =
     ebBookmarksCheckForBookmarks now
       (s\<lparr>localStorage := removeItem (localStorage s) (key' bookmark)\<rparr>)"

text \<open>
  Lines 435-456. \<open>None\<close> is a call without an element; reading \<^verbatim>\<open>.id\<close> of the null
  that \<^verbatim>\<open>querySelector\<close> returned raises TypeError.
\<close>

definition element_id :: "element \<Rightarrow> string" where
  "element_id e = (case id_attr e of None \<Rightarrow> [] | Some i \<Rightarrow> i)"

definition ebBookmarksElementID :: "element option \<Rightarrow> state \<Rightarrow> error + string" where
  "ebBookmarksElementID element s =
     (case (case element of
              None \<Rightarrow> find (\<lambda>e. data_bookmark e = Some ''onscreen'') (elements s)
            | Some e \<Rightarrow> Some e) of
        None \<Rightarrow> Inl TypeError
      | Some e \<Rightarrow>
         if element_id e \<noteq> [] then Inr (element_id e)
         else if location_hash s \<noteq> [] then Inr (location_hash s)
         else (case find (\<lambda>e. id_attr e \<noteq> None) (elements s) of
                 None \<Rightarrow> Inl TypeError
               | Some e' \<Rightarrow> Inr (element_id e')))"

text \<open>
  Lines 463-475, the fallback description. The suffix is a space and the character
  U+2026, written here as its three UTF-8 bytes. A character of the text stands for one
  UTF-16 code unit of the source, which is exact for ASCII text.
\<close>

definition ellipsis_suffix :: string where
  "ellipsis_suffix = [CHR '' '', CHR 0xE2, CHR 0x80, CHR 0xA6]"

definition fallback_description :: "string \<Rightarrow> string" where
  "fallback_description text =
     (let description = take 50 text;
          indexOfLastSpace = lastIndexOf description CHR '' '';
          indexOfLastFullStop = lastIndexOf description CHR ''.'';
          elideFrom = (if indexOfLastFullStop > indexOfLastSpace then indexOfLastFullStop
                       else indexOfLastSpace)
      in slice_0 description elideFrom @ ellipsis_suffix)"

text \<open>
  Lines 493-506, with \<^verbatim>\<open>ebSlugify\<close> (defined in another script of the template) as the
  parameter \<open>slugify\<close>.
\<close>

definition bookmarkKey :: "(string \<Rightarrow> string) \<Rightarrow> string \<Rightarrow> string \<Rightarrow> sessionDate \<Rightarrow> string" where
  "bookmarkKey slugify title typ d =
     (if typ = ''lastLocation''
      then ''bookmark-'' @ slugify title @ ''-'' @ typ @ ''-'' @ ToString_sd d
      else ''bookmark-'' @ slugify title @ ''-'' @ typ)"

text \<open>
  Lines 459-512: the bookmark object and the key it is stored under. The description
  argument is \<open>None\<close> when the caller passes none; like the empty string it is falsy.
  The properties of the object literal are evaluated in order, so the session is read
  before the element's id and fingerprint; \<^verbatim>\<open>document.body.dataset.title\<close> is taken to
  be set.
\<close>

definition capture ::
  "(string \<Rightarrow> string) \<Rightarrow> nat \<Rightarrow> string \<Rightarrow> element option \<Rightarrow> string option \<Rightarrow> state
     \<Rightarrow> error + bookmark \<times> state" where
  "capture slugify now typ element description0 s =
     (case (if description0 = None \<or> description0 = Some []
            then (case element of
                    None \<Rightarrow> Inl TypeError
                  | Some e \<Rightarrow> Inr (fallback_description (innerText e)))
            else Inr (the description0)) of
        Inl e \<Rightarrow> Inl e
      | Inr description1 \<Rightarrow>
         (let (d, s1) = ebBookmarksSessionDate now s in
          case ebBookmarksElementID element s1 of
            Inl e \<Rightarrow> Inl e
          | Inr elementID \<Rightarrow>
             (case element of
                None \<Rightarrow> Inl TypeError
              | Some e \<Rightarrow>
                 (let (d2, s2) = ebBookmarksSessionDate now s1 in
                  Inr (\<lparr>sessionDate = d, type' = typ, bookTitle = body_title s2,
                        pageTitle = document_title s2, description = description1,
                        id' = elementID, fingerprint = data_fingerprint e,
                        location = split_hash_0 (location_href s2) @ ''#'' @ elementID,
                        key' = bookmarkKey slugify (body_title s2) typ d2\<rparr>, s2)))))"

definition ebBookmarksSetBookmark ::
  "(string \<Rightarrow> string) \<Rightarrow> nat \<Rightarrow> string \<Rightarrow> element option \<Rightarrow> string option \<Rightarrow> state
     \<Rightarrow> error + state" where
  "ebBookmarksSetBookmark slugify now typ element description0 s =
     (case capture slugify now typ element description0 s of
        Inl e \<Rightarrow> Inl e
      | Inr (bookmark, s1) \<Rightarrow>
         ebBookmarksCheckForBookmarks now
           (s1\<lparr>localStorage := setItem (localStorage s1) (key' bookmark) (Record bookmark)\<rparr>))"

subsection \<open>Predicates and example states for the properties\<close>

text \<open>
  \<open>prunes ls ls'\<close>: the storage \<open>ls'\<close> is \<open>ls\<close> without some of its records under
  last-location keys, the other entries unchanged and in their order.
\<close>

definition prunes :: "storage \<Rightarrow> storage \<Rightarrow> bool" where
  "prunes ls ls' =
     (\<exists>keep. ls' = filter keep ls \<and>
        (\<forall>kv \<in> set ls. \<not> keep kv \<longrightarrow> lastLocation_key (fst kv) \<and> (\<exists>b. snd kv = Record b)))"

text \<open>
  The entry \<open>x\<close> is in the storage, under the first occurrence of its key, and at most one
  last-location record of the title is enumerated after it.
\<close>

definition among_last_two :: "string \<Rightarrow> string \<times> item \<Rightarrow> storage \<Rightarrow> bool" where
  "among_last_two t x ls =
     (\<exists>pre post. ls = pre @ x # post \<and> fst x \<notin> fst ` set pre \<and>
        length (title_entries t post) \<le> 1)"

text \<open>An entry that holds a UserBookmark record of the title.\<close>

fun userBookmark_of :: "string \<Rightarrow> string \<times> item \<Rightarrow> bool" where
  "userBookmark_of t (k, Record b) = (type' b = ''userBookmark'' \<and> bookTitle b = t)"
| "userBookmark_of t (k, Raw r) = False"

text \<open>
  Example states. The last-location record of the book \<open>''B''\<close> that a session \<open>n\<close> has
  stored on leaving page one, under the key derived for it with the slug \<open>''b''\<close>; a state
  on page two, given its storage and its \<^verbatim>\<open>sessionDate\<close> item.
\<close>

definition example_key :: "nat \<Rightarrow> string" where
  "example_key n = ''bookmark-b-lastLocation-'' @ ToString n"

definition example_lastLocation :: "nat \<Rightarrow> bookmark" where
  "example_lastLocation n =
     \<lparr>sessionDate = Stored n, type' = ''lastLocation'', bookTitle = ''B'',
      pageTitle = ''One'', description = ''d'', id' = ''p1'', fingerprint = None,
      location = ''https://site/one.html#p1'', key' = example_key n\<rparr>"

definition example_entry :: "nat \<Rightarrow> string \<times> item" where
  "example_entry n = (example_key n, Record (example_lastLocation n))"

definition example_state :: "storage \<Rightarrow> nat option \<Rightarrow> state" where
  "example_state ls sd =
     \<lparr>localStorage = ls, sessionDate_item = sd, index_of_bookmarks = None,
      elements = [], body_title = ''B'', document_title = ''Two'',
      location_href = ''https://site/two.html'', location_hash = [],
      bookmarksList = [], lastLocationsList = [], alerts = 0\<rparr>"

text \<open>The UserBookmark of the book, and a last location of another book.\<close>

definition example_userBookmark :: bookmark where
  "example_userBookmark =
     \<lparr>sessionDate = Stored 1000, type' = ''userBookmark'', bookTitle = ''B'',
      pageTitle = ''One'', description = ''d'', id' = ''p1'', fingerprint = None,
      location = ''https://site/one.html#p1'', key' = ''bookmark-b-userBookmark''\<rparr>"

definition example_other :: bookmark where
  "example_other =
     \<lparr>sessionDate = Stored 1000, type' = ''lastLocation'', bookTitle = ''C'',
      pageTitle = ''One'', description = ''d'', id' = ''p1'', fingerprint = None,
      location = ''https://other/one.html#p1'', key' = ''bookmark-c-lastLocation-1000''\<rparr>"

text \<open>
  A page whose only element is a heading, in the session 1000; the heading once marked;
  the UserBookmark that a capture on the heading builds from a description, and a last
  location on the same heading from an earlier session.
\<close>

definition example_slugify :: "string \<Rightarrow> string" where
  "example_slugify t = (if t = ''B'' then ''b'' else t)"

definition example_heading :: element where
  "example_heading =
     \<lparr>id_attr = Some ''intro'', data_fingerprint = Some ''abc'', innerText = ''Introduction'',
      data_bookmarked = None, data_bookmark_type = None, title_attr = None,
      data_bookmark = Some ''onscreen''\<rparr>"

definition example_marked :: "string \<Rightarrow> string \<Rightarrow> element" where
  "example_marked d t =
     example_heading\<lparr>data_bookmarked := Some ''true'', data_bookmark_type := Some t,
       title_attr := Some d\<rparr>"

definition example_page :: "storage \<Rightarrow> element \<Rightarrow> bookmark list \<Rightarrow> state" where
  "example_page ls e bl =
     \<lparr>localStorage = ls, sessionDate_item = Some 1000, index_of_bookmarks = None,
      elements = [e], body_title = ''B'', document_title = ''Intro'',
      location_href = ''https://site/intro.html#intro'', location_hash = ''#intro'',
      bookmarksList = bl, lastLocationsList = [], alerts = 0\<rparr>"

definition example_capture :: "string \<Rightarrow> bookmark" where
  "example_capture d =
     \<lparr>sessionDate = Stored 1000, type' = ''userBookmark'', bookTitle = ''B'',
      pageTitle = ''Intro'', description = d, id' = ''intro'', fingerprint = Some ''abc'',
      location = ''https://site/intro.html#intro'', key' = ''bookmark-b-userBookmark''\<rparr>"

definition example_visit :: bookmark where
  "example_visit =
     \<lparr>sessionDate = Stored 900, type' = ''lastLocation'', bookTitle = ''B'',
      pageTitle = ''Intro'', description = ''Introductio'', id' = ''intro'',
      fingerprint = Some ''abc'', location = ''https://site/intro.html#intro'',
      key' = ''bookmark-b-lastLocation-900''\<rparr>"

text \<open>
  The last location that session 1000 captures on leaving the page with the heading.
\<close>

definition example_leave :: bookmark where
  "example_leave =
     \<lparr>sessionDate = Stored 1000, type' = ''lastLocation'', bookTitle = ''B'',
      pageTitle = ''Intro'', description = ''Introductio'' @ ellipsis_suffix, id' = ''intro'',
      fingerprint = Some ''abc'', location = ''https://site/intro.html#intro'',
      key' = example_key 1000\<rparr>"

text \<open>
  A page with three sections and a fingerprint index taken before the first section
  changed its id from \<open>sec-3\<close> to \<open>sec-9\<close>.
\<close>

definition example_document :: state where
  "example_document =
     \<lparr>localStorage = [], sessionDate_item = Some 1000,
      index_of_bookmarks = Some [(''abc'', ''sec-3''), (''def'', ''sec-4'')],
      elements =
        [\<lparr>id_attr = Some ''sec-9'', data_fingerprint = Some ''abc'', innerText = ''Nine'',
          data_bookmarked = None, data_bookmark_type = None, title_attr = None,
          data_bookmark = None\<rparr>,
         \<lparr>id_attr = Some ''sec-4'', data_fingerprint = Some ''def'', innerText = ''Four'',
          data_bookmarked = None, data_bookmark_type = None, title_attr = None,
          data_bookmark = None\<rparr>,
         \<lparr>id_attr = Some ''sec-5'', data_fingerprint = None, innerText = ''Five'',
          data_bookmarked = None, data_bookmark_type = None, title_attr = None,
          data_bookmark = None\<rparr>],
      body_title = ''B'', document_title = ''Sections'',
      location_href = ''https://site/sections.html'', location_hash = [],
      bookmarksList = [], lastLocationsList = [], alerts = 0\<rparr>"

section \<open>Properties\<close>

subsection \<open>Decimal numerals\<close>

text \<open>
  Different timestamps have different numerals, so the keys of different sessions differ.
\<close>

lemma ToString_nonempty: "ToString n \<noteq> []"
  by (subst ToString.simps) simp

lemma digit_inj: "a < 10 \<Longrightarrow> b < 10 \<Longrightarrow> digit a = digit b \<Longrightarrow> a = b"
proof -
  assume a: "a < 10" and b: "b < 10" and e: "digit a = digit b"
  have d: "distinct ''0123456789''" by simp
  have "length ''0123456789'' = 10" by simp
  with a b e d show "a = b" unfolding digit_def by (metis nth_eq_iff_index_eq)
qed

lemma ToString_inj: "ToString n = ToString m \<Longrightarrow> n = m"
proof (induction n arbitrary: m rule: ToString.induct)
  case (1 n)
  show ?case
  proof (cases "n < 10")
    case True
    note n = this
    show ?thesis
    proof (cases "m < 10")
      case True
      with n "1.prems" show ?thesis
        by (simp add: ToString.simps[of n] ToString.simps[of m] digit_inj)
    next
      case False
      with n "1.prems" ToString_nonempty[of "m div 10"] show ?thesis
        by (simp add: ToString.simps[of n] ToString.simps[of m])
    qed
  next
    case False
    note n = this
    show ?thesis
    proof (cases "m < 10")
      case True
      with n "1.prems" ToString_nonempty[of "n div 10"] show ?thesis
        by (simp add: ToString.simps[of n] ToString.simps[of m])
    next
      case False
      with n "1.prems" have e: "ToString (n div 10) = ToString (m div 10)"
        and d: "digit (n mod 10) = digit (m mod 10)"
        by (simp_all add: ToString.simps[of n] ToString.simps[of m])
      have "n div 10 = m div 10" using "1.IH"[OF n e] .
      moreover have "n mod 10 = m mod 10" using d by (simp add: digit_inj)
      ultimately show ?thesis by (metis div_mult_mod_eq)
    qed
  qed
qed

text \<open>
  \<open>lastIndexOf\<close> finds the last occurrence, if there is one.
\<close>

lemma lastIndexOf_absent: "c \<notin> set s \<Longrightarrow> lastIndexOf s c = -1"
  by (induction s) (auto simp: Let_def)

lemma lastIndexOf_range: "-1 \<le> lastIndexOf s c \<and> lastIndexOf s c < int (length s)"
  by (induction s) (auto simp: Let_def)

lemma lastIndexOf_present:
  "c \<in> set s \<Longrightarrow> 0 \<le> lastIndexOf s c \<and> s ! nat (lastIndexOf s c) = c"
proof (induction s)
  case Nil
  then show ?case by simp
next
  case (Cons x xs)
  show ?case
  proof (cases "c \<in> set xs")
    case True
    then have ih: "0 \<le> lastIndexOf xs c" "xs ! nat (lastIndexOf xs c) = c"
      using Cons.IH by auto
    then have "nat (lastIndexOf xs c + 1) = Suc (nat (lastIndexOf xs c))" by simp
    with ih show ?thesis by (simp add: Let_def)
  next
    case False
    then have "lastIndexOf xs c = -1" by (rule lastIndexOf_absent)
    moreover have "x = c" using False Cons.prems by simp
    ultimately show ?thesis by (simp add: Let_def)
  qed
qed

lemma lastIndexOf_last:
  "lastIndexOf s c < int j \<Longrightarrow> j < length s \<Longrightarrow> s ! j \<noteq> c"
proof (induction s arbitrary: j)
  case Nil
  then show ?case by simp
next
  case (Cons x xs)
  show ?case
  proof (cases j)
    case 0
    with Cons.prems lastIndexOf_range[of xs c] show ?thesis
      by (auto simp: Let_def split: if_splits)
  next
    case (Suc j')
    with Cons.prems have "lastIndexOf xs c < int j'"
      by (auto simp: Let_def split: if_splits)
    with Suc Cons show ?thesis by simp
  qed
qed

subsection \<open>Pruning, loop by loop\<close>

text \<open>
  The first loop collects the records of \<open>title_entries\<close>; the last loop is a filter,
  and it raises nothing that the first loop has not raised already.
\<close>

lemma title_entries_mem:
  "kb \<in> set (title_entries t ls) \<Longrightarrow> lastLocation_key (fst kb) \<and> t = bookTitle (snd kb)"
proof (induction ls)
  case Nil
  then show ?case by simp
next
  case (Cons kv ls)
  obtain k v where "kv = (k, v)" by (cases kv)
  with Cons show ?case by (cases v) (auto split: if_splits)
qed

lemma collect_title_entries:
  "collect_lastLocations t ls = Inr bs \<Longrightarrow> bs = map snd (title_entries t ls)"
proof (induction ls arbitrary: bs)
  case Nil
  then show ?case by simp
next
  case (Cons kv ls)
  obtain k v where kv: "kv = (k, v)" by (cases kv)
  show ?case
  proof (cases v)
    case (Record b)
    with Cons kv show ?thesis
      by (auto split: if_splits sum.splits)
  next
    case (Raw r)
    with Cons kv show ?thesis
      by (auto split: if_splits sum.splits)
  qed
qed

lemma remove_unmatched_filter:
  "remove_unmatched t L ls = Inr ls' \<Longrightarrow> ls' = filter (\<lambda>kv. \<not> unmatched t L kv) ls"
proof (induction ls arbitrary: ls')
  case Nil
  then show ?case by simp
next
  case (Cons kv ls)
  obtain k v where kv: "kv = (k, v)" by (cases kv)
  show ?case
  proof (cases v)
    case (Record b)
    with Cons kv show ?thesis
      by (auto split: if_splits sum.splits)
  next
    case (Raw r)
    with Cons kv show ?thesis
      by (auto split: if_splits sum.splits)
  qed
qed

lemma remove_unmatched_total:
  "collect_lastLocations t ls = Inr bs \<Longrightarrow> \<exists>ls'. remove_unmatched t L ls = Inr ls'"
proof (induction ls arbitrary: bs)
  case Nil
  then show ?case by simp
next
  case (Cons kv ls)
  obtain k v where kv: "kv = (k, v)" by (cases kv)
  show ?case
  proof (cases v)
    case (Record b)
    with Cons kv show ?thesis
      by (fastforce split: if_splits sum.splits)
  next
    case (Raw r)
    with Cons kv show ?thesis
      by (fastforce split: if_splits sum.splits)
  qed
qed

lemma collect_filter_total:
  "collect_lastLocations t ls = Inr bs \<Longrightarrow> \<exists>bs'. collect_lastLocations t (filter P ls) = Inr bs'"
proof (induction ls arbitrary: bs)
  case Nil
  then show ?case by simp
next
  case (Cons kv ls)
  obtain k v where kv: "kv = (k, v)" by (cases kv)
  show ?case
  proof (cases v)
    case (Record b)
    with Cons kv show ?thesis
      by (fastforce split: if_splits sum.splits)
  next
    case (Raw r)
    with Cons kv show ?thesis
      by (fastforce split: if_splits sum.splits)
  qed
qed

text \<open>
  The session functions change nothing but the \<^verbatim>\<open>sessionDate\<close> item, and nothing at all
  once that item exists.
\<close>

lemma sessionDate_session:
  "sessionDate_item s = Some n \<Longrightarrow> ebBookmarksSessionDate now s = (Stored n, s)"
  by (simp add: ebBookmarksSessionDate_def)

lemma previousSessionLocations_session:
  "sessionDate_item s = Some n \<Longrightarrow>
   previousSessionLocations now bs s = (length (filter (\<lambda>l. sessionDate l \<noteq> Stored n) bs), s)"
  by (induction bs) (auto simp: ebBookmarksSessionDate_def)

lemma sessionDate_frame:
  "\<exists>x. snd (ebBookmarksSessionDate now s) = s\<lparr>sessionDate_item := x\<rparr>"
proof (cases "sessionDate_item s")
  case None
  then show ?thesis by (auto simp: ebBookmarksSessionDate_def)
next
  case (Some n)
  then have "snd (ebBookmarksSessionDate now s) = s\<lparr>sessionDate_item := sessionDate_item s\<rparr>"
    by (simp add: ebBookmarksSessionDate_def)
  then show ?thesis by blast
qed

lemma previousSessionLocations_frame:
  "\<exists>x. snd (previousSessionLocations now bs s) = s\<lparr>sessionDate_item := x\<rparr>"
proof (induction bs arbitrary: s)
  case Nil
  have "s = s\<lparr>sessionDate_item := sessionDate_item s\<rparr>" by simp
  then show ?case by (metis previousSessionLocations.simps(1) snd_conv)
next
  case (Cons l bs)
  obtain x where x: "snd (ebBookmarksSessionDate now s) = s\<lparr>sessionDate_item := x\<rparr>"
    using sessionDate_frame by blast
  obtain y where y: "snd (previousSessionLocations now bs (s\<lparr>sessionDate_item := x\<rparr>))
      = s\<lparr>sessionDate_item := x\<rparr>\<lparr>sessionDate_item := y\<rparr>"
    using Cons.IH by blast
  have "snd (previousSessionLocations now (l # bs) s) = s\<lparr>sessionDate_item := y\<rparr>"
    using x y by (simp add: split_beta Let_def)
  then show ?case by blast
qed

lemma retained_frame:
  "\<exists>x. snd (retained_lastLocations now bs s) = s\<lparr>sessionDate_item := x\<rparr>"
  using previousSessionLocations_frame
  by (simp add: retained_lastLocations_def Let_def split_beta)

lemma retained_localStorage:
  "localStorage (snd (retained_lastLocations now bs s)) = localStorage s"
proof -
  obtain x where "snd (retained_lastLocations now bs s) = s\<lparr>sessionDate_item := x\<rparr>"
    using retained_frame by blast
  then show ?thesis by simp
qed

lemma sessionDate_localStorage:
  "localStorage (snd (ebBookmarksSessionDate now s)) = localStorage s"
  by (simp add: ebBookmarksSessionDate_def split: option.splits)

lemma clean_char:
  "ebBookmarksCleanLastLocations now t s =
     (case collect_lastLocations t (localStorage s) of
        Inl e \<Rightarrow> Inl e
      | Inr bs \<Rightarrow>
          Inr ((snd (retained_lastLocations now bs s))
                 \<lparr>localStorage :=
                    filter (\<lambda>kv. \<not> unmatched t (fst (retained_lastLocations now bs s)) kv)
                      (localStorage s)\<rparr>))"
proof (cases "collect_lastLocations t (localStorage s)")
  case (Inl e)
  then show ?thesis by (simp add: ebBookmarksCleanLastLocations_def)
next
  case (Inr bs)
  obtain L s1 where r: "retained_lastLocations now bs s = (L, s1)"
    by (cases "retained_lastLocations now bs s")
  have ls1: "localStorage s1 = localStorage s"
    using retained_localStorage[of now bs s] r by simp
  obtain ls' where ls': "remove_unmatched t L (localStorage s) = Inr ls'"
    using remove_unmatched_total[OF Inr] by blast
  have "ls' = filter (\<lambda>kv. \<not> unmatched t L kv) (localStorage s)"
    using remove_unmatched_filter[OF ls'] .
  with Inr r ls1 ls' show ?thesis
    by (simp add: ebBookmarksCleanLastLocations_def)
qed

lemma unmatched_cases:
  "unmatched t L (k, v) \<Longrightarrow> lastLocation_key k \<and> (\<exists>b. v = Record b \<and> bookTitle b = t)"
  by (cases v) auto

lemma retained_session:
  assumes "sessionDate_item s = Some n"
  shows "retained_lastLocations now bs s =
    (let sorted = sort_key (\<lambda>b. parseFloat (sessionDate b)) (drop (length bs - 2) bs) in
     if length (filter (\<lambda>l. sessionDate l \<noteq> Stored n) sorted) > 1 then drop 1 sorted else sorted, s)"
  using assms by (simp add: retained_lastLocations_def Let_def previousSessionLocations_session)

lemma retained_props:
  assumes "sessionDate_item s = Some n" and L_def: "L = fst (retained_lastLocations now bs s)"
  shows "set L \<subseteq> set bs" and "length L \<le> 2"
    and "length (filter (\<lambda>l. sessionDate l \<noteq> Stored n) L) \<le> 1"
proof -
  define sorted where "sorted = sort_key (\<lambda>b. parseFloat (sessionDate b)) (drop (length bs - 2) bs)"
  have L: "L = (if length (filter (\<lambda>l. sessionDate l \<noteq> Stored n) sorted) > 1 then drop 1 sorted else sorted)"
    unfolding L_def using retained_session[OF assms(1)] by (simp add: Let_def sorted_def)
  have len: "length sorted \<le> 2" by (simp add: sorted_def)
  have sub: "set sorted \<subseteq> set bs" by (auto simp: sorted_def dest: in_set_dropD)
  show "set L \<subseteq> set bs" using sub L by (auto dest: in_set_dropD)
  show "length L \<le> 2" using len L by auto
  show "length (filter (\<lambda>l. sessionDate l \<noteq> Stored n) L) \<le> 1"
  proof (cases "length (filter (\<lambda>l. sessionDate l \<noteq> Stored n) sorted) > 1")
    case True
    then have "length L \<le> 1" using L len by simp
    then show ?thesis using length_filter_le le_trans by blast
  next
    case False
    then show ?thesis using L by simp
  qed
qed

lemma retained_small:
  assumes "sessionDate_item s = Some n" and "length bs \<le> 2"
    and "length (filter (\<lambda>l. sessionDate l \<noteq> Stored n) bs) \<le> 1"
  shows "set (fst (retained_lastLocations now bs s)) = set bs"
proof -
  have "filter (\<lambda>l. sessionDate l \<noteq> Stored n) (sort_key (\<lambda>b. parseFloat (sessionDate b)) bs)
      = sort_key (\<lambda>b. parseFloat (sessionDate b)) (filter (\<lambda>l. sessionDate l \<noteq> Stored n) bs)"
    by (rule filter_sort)
  then have "length (filter (\<lambda>l. sessionDate l \<noteq> Stored n) (sort_key (\<lambda>b. parseFloat (sessionDate b)) bs)) \<le> 1"
    using assms(3) by simp
  then show ?thesis using assms(1,2) by (simp add: retained_session Let_def)
qed

lemma clean_session:
  assumes "sessionDate_item s = Some n" and "ebBookmarksCleanLastLocations now t s = Inr s'"
  shows "\<exists>ls. s' = s\<lparr>localStorage := ls\<rparr>"
proof -
  from assms(2) obtain bs where bs: "collect_lastLocations t (localStorage s) = Inr bs"
    by (auto simp: clean_char split: sum.splits)
  have "snd (retained_lastLocations now bs s) = s"
    using assms(1) by (simp add: retained_session)
  with assms(2) bs show ?thesis by (auto simp: clean_char)
qed

lemma title_entries_append:
  "title_entries t (xs @ ys) = title_entries t xs @ title_entries t ys"
proof (induction xs)
  case Nil
  then show ?case by simp
next
  case (Cons kv xs)
  obtain k v where "kv = (k, v)" by (cases kv)
  with Cons show ?case by (cases v) auto
qed

lemma title_entries_filter:
  "title_entries t (filter P ls) = filter (\<lambda>kb. P (fst kb, Record (snd kb))) (title_entries t ls)"
proof (induction ls)
  case Nil
  then show ?case by simp
next
  case (Cons kv ls)
  obtain k v where kv: "kv = (k, v)" by (cases kv)
  show ?case using Cons kv by (cases v) auto
qed

lemma title_entries_keys:
  "set (map fst (title_entries t ls)) \<subseteq> set (map fst ls)"
proof (induction ls)
  case Nil
  then show ?case by simp
next
  case (Cons kv ls)
  obtain k v where kv: "kv = (k, v)" by (cases kv)
  show ?case using Cons kv by (cases v) auto
qed

lemma title_entries_distinct:
  "distinct (map fst ls) \<Longrightarrow> distinct (map fst (title_entries t ls))"
proof (induction ls)
  case Nil
  then show ?case by simp
next
  case (Cons kv ls)
  obtain k v where kv: "kv = (k, v)" by (cases kv)
  show ?case using Cons kv title_entries_keys[of t ls] by (cases v) auto
qed

lemma matches_0: "matches k L = 0 \<longleftrightarrow> (\<forall>l \<in> set L. \<not> includes_str k (ToString_sd (sessionDate l)))"
  by (auto simp: matches_def filter_empty_conv)

lemma unmatched_set: "set L = set L' \<Longrightarrow> unmatched t L kv = unmatched t L' kv"
proof -
  assume "set L = set L'"
  then have "\<And>k. (matches k L = 0) = (matches k L' = 0)" by (simp add: matches_0)
  then show ?thesis by (cases kv; cases "snd kv") auto
qed

lemma own_matches:
  assumes own: "own_sessionDate_only t ls" and dist: "distinct (map fst ls)"
    and L: "set L \<subseteq> snd ` set (title_entries t ls)"
    and kb: "(k, b) \<in> set (title_entries t ls)"
  shows "matches k L \<noteq> 0 \<longleftrightarrow> b \<in> set L"
proof
  assume "matches k L \<noteq> 0"
  then obtain l where l: "l \<in> set L" "includes_str k (ToString_sd (sessionDate l))"
    by (auto simp: matches_0)
  then obtain k' where k': "(k', l) \<in> set (title_entries t ls)" using L by force
  have "includes_str k (ToString_sd (sessionDate l)) = (k = k')"
    using own kb k' by (fastforce simp: own_sessionDate_only_def)
  with l have "k = k'" by simp
  moreover have "distinct (map fst (title_entries t ls))"
    using dist by (rule title_entries_distinct)
  ultimately have "b = l" using kb k' by (meson eq_key_imp_eq_value)
  with l show "b \<in> set L" by simp
next
  assume "b \<in> set L"
  moreover have "includes_str k (ToString_sd (sessionDate b)) = (k = k)"
    using own kb by (fastforce simp: own_sessionDate_only_def)
  ultimately show "matches k L \<noteq> 0" by (auto simp: matches_0)
qed

lemma own_distinct_records:
  assumes own: "own_sessionDate_only t ls" and dist: "distinct (map fst ls)"
  shows "distinct (map snd (title_entries t ls))"
proof -
  have d: "distinct (map fst (title_entries t ls))"
    using dist by (rule title_entries_distinct)
  have "inj_on snd (set (title_entries t ls))"
  proof (rule inj_onI)
    fix x y assume x: "x \<in> set (title_entries t ls)" and y: "y \<in> set (title_entries t ls)"
      and e: "snd x = snd y"
    have "includes_str (fst x) (ToString_sd (sessionDate (snd y))) = (fst x = fst y)"
      using own x y by (fastforce simp: own_sessionDate_only_def)
    moreover have "includes_str (fst x) (ToString_sd (sessionDate (snd x))) = (fst x = fst x)"
      using own x by (fastforce simp: own_sessionDate_only_def)
    ultimately have "fst x = fst y" using e by simp
    with e show "x = y" by (simp add: prod_eq_iff)
  qed
  moreover have "distinct (title_entries t ls)" using d by (simp add: distinct_map)
  ultimately show ?thesis by (simp add: distinct_map)
qed

subsection \<open>What a reconciliation pass leaves in storage\<close>

text \<open>
  \<open>prunes ls ls'\<close>: \<open>ls'\<close> is \<open>ls\<close> without some records under last-location keys.
  Every step of \<^verbatim>\<open>ebBookmarksCheckForBookmarks\<close> prunes or leaves storage alone.
\<close>

lemma prunes_refl: "prunes ls ls"
  unfolding prunes_def by (rule exI[of _ "\<lambda>_. True"]) simp

lemma prunes_trans:
  assumes "prunes a b" and "prunes b c"
  shows "prunes a c"
proof -
  from assms(1) obtain k1 where k1: "b = filter k1 a"
    "\<forall>kv \<in> set a. \<not> k1 kv \<longrightarrow> lastLocation_key (fst kv) \<and> (\<exists>r. snd kv = Record r)"
    unfolding prunes_def by blast
  from assms(2) obtain k2 where k2: "c = filter k2 b"
    "\<forall>kv \<in> set b. \<not> k2 kv \<longrightarrow> lastLocation_key (fst kv) \<and> (\<exists>r. snd kv = Record r)"
    unfolding prunes_def by blast
  have "c = filter (\<lambda>kv. k1 kv \<and> k2 kv) a" using k1(1) k2(1) by (simp add: conj_commute)
  moreover have "\<forall>kv \<in> set a. \<not> (k1 kv \<and> k2 kv) \<longrightarrow>
      lastLocation_key (fst kv) \<and> (\<exists>r. snd kv = Record r)"
    using k1 k2 by auto
  ultimately show ?thesis unfolding prunes_def by blast
qed

lemma clean_prunes:
  assumes "ebBookmarksCleanLastLocations now t s = Inr s'"
  shows "prunes (localStorage s) (localStorage s')"
proof -
  from assms obtain bs where bs: "collect_lastLocations t (localStorage s) = Inr bs"
    by (auto simp: clean_char split: sum.splits)
  define L where "L = fst (retained_lastLocations now bs s)"
  have "localStorage s' = filter (\<lambda>kv. \<not> unmatched t L kv) (localStorage s)"
    using assms bs by (auto simp: clean_char L_def)
  moreover have "\<forall>kv \<in> set (localStorage s). \<not> \<not> unmatched t L kv \<longrightarrow>
      lastLocation_key (fst kv) \<and> (\<exists>b. snd kv = Record b)"
    using unmatched_cases by (metis prod.collapse)
  ultimately show ?thesis unfolding prunes_def by blast
qed

lemma prunes_subset: "prunes ls ls' \<Longrightarrow> set ls' \<subseteq> set ls"
  unfolding prunes_def by auto

lemma prunes_distinct: "prunes ls ls' \<Longrightarrow> distinct (map fst ls) \<Longrightarrow> distinct (map fst ls')"
  unfolding prunes_def by (auto simp: distinct_map_filter)

lemma prunes_mem:
  "prunes ls ls' \<Longrightarrow> kv \<in> set ls \<Longrightarrow> \<not> lastLocation_key (fst kv) \<Longrightarrow> kv \<in> set ls'"
  unfolding prunes_def by auto

lemma clean_titles_prunes:
  "clean_titles now ks s = Inr s' \<Longrightarrow> prunes (localStorage s) (localStorage s')"
proof (induction ks arbitrary: s)
  case Nil
  then show ?case by (simp add: prunes_refl)
next
  case (Cons k ks)
  show ?case
  proof (cases "startsWith k ''bookmark-''")
    case False
    with Cons show ?thesis by simp
  next
    case True
    show ?thesis
    proof (cases "getItem (localStorage s) k")
      case None
      with True Cons show ?thesis by simp
    next
      case (Some v)
      with True Cons.prems obtain entry :: bookmark and s1 where
        "ebBookmarksCleanLastLocations now (bookTitle entry) s = Inr s1"
        "clean_titles now ks s1 = Inr s'"
        by (auto split: sum.splits)
      then show ?thesis using Cons.IH clean_prunes prunes_trans by blast
    qed
  qed
qed

lemma visible_localStorage:
  "visible_bookmarks now ls s = Inr (bms, s') \<Longrightarrow> localStorage s' = localStorage s"
proof (induction ls arbitrary: s bms)
  case Nil
  then show ?case by simp
next
  case (Cons kv ls)
  obtain k v where kv: "kv = (k, v)" by (cases kv)
  show ?case
  proof (cases "startsWith k ''bookmark-''")
    case False
    with Cons kv show ?thesis by simp
  next
    case True
    then obtain bm where bm: "JSON_parse v = Inr bm"
      using Cons.prems kv by (auto split: sum.splits)
    show ?thesis
    proof (cases "type' bm \<noteq> ''lastLocation''")
      case True
      with \<open>startsWith k ''bookmark-''\<close> bm kv Cons show ?thesis
        by (auto split: sum.splits)
    next
      case False
      obtain d s1 where d: "ebBookmarksSessionDate now s = (d, s1)"
        by (cases "ebBookmarksSessionDate now s")
      then have "localStorage s1 = localStorage s"
        using sessionDate_localStorage[of now s] by simp
      moreover from False \<open>startsWith k ''bookmark-''\<close> bm kv d Cons.prems
      obtain bms' where "visible_bookmarks now ls s1 = Inr (bms', s')"
        by (auto split: sum.splits)
      ultimately show ?thesis using Cons.IH by fastforce
    qed
  qed
qed

lemma mark_each_localStorage:
  "mark_each bms s = Inr s' \<Longrightarrow> localStorage s' = localStorage s"
proof (induction bms arbitrary: s)
  case Nil
  then show ?case by simp
next
  case (Cons bm bms)
  show ?case
  proof (cases "ebBookmarksCheckForCurrentPage s (location bm)")
    case False
    with Cons show ?thesis by simp
  next
    case True
    with Cons.prems obtain e where "getElementById s (id' bm) = Some e"
      by (auto split: option.splits)
    with True Cons show ?thesis by fastforce
  qed
qed

lemma mark_localStorage:
  "ebBookmarksMarkBookmarks bms s = Inr s' \<Longrightarrow> localStorage s' = localStorage s"
  unfolding ebBookmarksMarkBookmarks_def using mark_each_localStorage by fastforce

lemma list_each_prunes:
  "list_each now bms s = Inr s' \<Longrightarrow> prunes (localStorage s) (localStorage s')"
proof (induction bms arbitrary: s)
  case Nil
  then show ?case by (simp add: prunes_refl)
next
  case (Cons bm bms)
  from Cons.prems obtain s1 where s1: "ebBookmarksCleanLastLocations now (bookTitle bm) s = Inr s1"
    by (auto split: sum.splits)
  then have p1: "prunes (localStorage s) (localStorage s1)" by (rule clean_prunes)
  show ?case
  proof (cases "type' bm = ''lastLocation''")
    case False
    with s1 Cons.prems have "list_each now bms (s1\<lparr>bookmarksList := bookmarksList s1 @ [bm]\<rparr>) = Inr s'"
      by simp
    then have "prunes (localStorage s1) (localStorage s')" using Cons.IH by fastforce
    with p1 show ?thesis by (rule prunes_trans)
  next
    case True
    obtain d s2 where d: "ebBookmarksSessionDate now s1 = (d, s2)"
      by (cases "ebBookmarksSessionDate now s1")
    then have l2: "localStorage s2 = localStorage s1"
      using sessionDate_localStorage[of now s1] by simp
    from True s1 d Cons.prems have
      "list_each now bms s2 = Inr s' \<or>
       list_each now bms (s2\<lparr>lastLocationsList := lastLocationsList s2 @ [bm]\<rparr>) = Inr s'"
      by (auto split: if_splits)
    then have "prunes (localStorage s1) (localStorage s')"
      using Cons.IH l2 by fastforce
    with p1 show ?thesis by (rule prunes_trans)
  qed
qed

lemma check_prunes:
  assumes "ebBookmarksCheckForBookmarks now s = Inr s'"
  shows "prunes (localStorage s) (localStorage s')"
proof -
  from assms obtain s1 bookmarks s2 s3 where
    1: "clean_titles now (map fst (localStorage s)) s = Inr s1" and
    2: "visible_bookmarks now (localStorage s1) s1 = Inr (bookmarks, s2)" and
    3: "ebBookmarksMarkBookmarks bookmarks s2 = Inr s3" and
    4: "ebBookmarksListBookmarks now bookmarks s3 = Inr s'"
    by (auto simp: ebBookmarksCheckForBookmarks_def split: sum.splits)
  have "prunes (localStorage s) (localStorage s1)" using 1 by (rule clean_titles_prunes)
  moreover have "localStorage s3 = localStorage s1"
    using visible_localStorage[OF 2] mark_localStorage[OF 3] by simp
  moreover have "prunes (localStorage s3) (localStorage s')"
    using list_each_prunes 4 unfolding ebBookmarksListBookmarks_def by fastforce
  ultimately show ?thesis using prunes_trans by metis
qed

text \<open>
  In a session that has its identifier, the pass leaves the session as it is, and neither
  the visible set nor the list of last locations takes a record of that session.
\<close>

lemma clean_titles_session:
  "sessionDate_item s = Some n \<Longrightarrow> clean_titles now ks s = Inr s' \<Longrightarrow>
   \<exists>ls. s' = s\<lparr>localStorage := ls\<rparr>"
proof (induction ks arbitrary: s)
  case Nil
  have "s = s\<lparr>localStorage := localStorage s\<rparr>" by simp
  with Nil show ?case by (metis clean_titles.simps(1) sum.inject(2))
next
  case (Cons k ks)
  show ?case
  proof (cases "startsWith k ''bookmark-'' \<and> getItem (localStorage s) k \<noteq> None")
    case False
    with Cons show ?thesis by (auto split: option.splits)
  next
    case True
    with Cons.prems(2) obtain entry :: bookmark and s1 where
      c: "ebBookmarksCleanLastLocations now (bookTitle entry) s = Inr s1"
      and r: "clean_titles now ks s1 = Inr s'"
      by (auto split: sum.splits option.splits)
    obtain ls1 where s1: "s1 = s\<lparr>localStorage := ls1\<rparr>"
      using clean_session[OF Cons.prems(1) c] by blast
    then have "sessionDate_item s1 = Some n" using Cons.prems(1) by simp
    then obtain ls where "s' = s1\<lparr>localStorage := ls\<rparr>" using Cons.IH r by blast
    then have "s' = s\<lparr>localStorage := ls\<rparr>" using s1 by simp
    then show ?thesis by blast
  qed
qed

lemma visible_session:
  "sessionDate_item s = Some n \<Longrightarrow> visible_bookmarks now ls s = Inr (bms, s') \<Longrightarrow>
   s' = s \<and> (\<forall>b \<in> set bms. type' b = ''lastLocation'' \<longrightarrow> sessionDate b \<noteq> Stored n)"
proof (induction ls arbitrary: bms)
  case Nil
  then show ?case by simp
next
  case (Cons kv ls)
  obtain k v where kv: "kv = (k, v)" by (cases kv)
  show ?case
  proof (cases "startsWith k ''bookmark-''")
    case False
    with Cons kv show ?thesis by simp
  next
    case True
    then obtain bm where bm: "JSON_parse v = Inr bm"
      using Cons.prems kv by (auto split: sum.splits)
    from True bm kv Cons.prems obtain bms' where
      rest: "visible_bookmarks now ls s = Inr (bms', s')"
      and bms: "bms = (if type' bm \<noteq> ''lastLocation'' \<or> sessionDate bm \<noteq> Stored n
                       then bm # bms' else bms')"
      by (auto simp: sessionDate_session split: sum.splits if_splits)
    from Cons.IH[OF Cons.prems(1) rest] bms show ?thesis by auto
  qed
qed

lemma mark_each_session:
  "mark_each bms s = Inr s' \<Longrightarrow> sessionDate_item s' = sessionDate_item s"
proof (induction bms arbitrary: s)
  case Nil
  then show ?case by simp
next
  case (Cons bm bms)
  then show ?case by (fastforce split: if_splits option.splits)
qed

lemma list_each_lists:
  "sessionDate_item s = Some n \<Longrightarrow> list_each now bms s = Inr s' \<Longrightarrow>
   \<forall>b \<in> set (lastLocationsList s). sessionDate b \<noteq> Stored n \<Longrightarrow>
   \<forall>b \<in> set (lastLocationsList s'). sessionDate b \<noteq> Stored n"
proof (induction bms arbitrary: s)
  case Nil
  then show ?case by simp
next
  case (Cons bm bms)
  from Cons.prems(2) obtain s1 where c: "ebBookmarksCleanLastLocations now (bookTitle bm) s = Inr s1"
    by (auto split: sum.splits)
  obtain ls1 where s1: "s1 = s\<lparr>localStorage := ls1\<rparr>"
    using clean_session[OF Cons.prems(1) c] by blast
  have sd1: "sessionDate_item s1 = Some n" using s1 Cons.prems(1) by simp
  have l1: "\<forall>b \<in> set (lastLocationsList s1). sessionDate b \<noteq> Stored n"
    using s1 Cons.prems(3) by simp
  show ?case
  proof (cases "type' bm = ''lastLocation''")
    case False
    with c Cons.prems(2) have "list_each now bms (s1\<lparr>bookmarksList := bookmarksList s1 @ [bm]\<rparr>) = Inr s'"
      by simp
    then show ?thesis using Cons.IH[of "s1\<lparr>bookmarksList := bookmarksList s1 @ [bm]\<rparr>"] sd1 l1 by simp
  next
    case True
    show ?thesis
    proof (cases "sessionDate bm = Stored n")
      case True
      with \<open>type' bm = ''lastLocation''\<close> c Cons.prems(2) sd1
      have "list_each now bms s1 = Inr s'" by (simp add: sessionDate_session)
      then show ?thesis using Cons.IH[OF sd1 _ l1] by simp
    next
      case False
      with \<open>type' bm = ''lastLocation''\<close> c Cons.prems(2) sd1
      have "list_each now bms (s1\<lparr>lastLocationsList := lastLocationsList s1 @ [bm]\<rparr>) = Inr s'"
        by (simp add: sessionDate_session)
      then show ?thesis
        using Cons.IH[of "s1\<lparr>lastLocationsList := lastLocationsList s1 @ [bm]\<rparr>"] sd1 l1 False
        by simp
    qed
  qed
qed

subsection \<open>Marking an element\<close>

lemma find_update_first:
  assumes "\<And>x. id_attr (f x) = id_attr x"
  shows "find (\<lambda>e. id_attr e = Some i) (update_first (\<lambda>e. id_attr e = Some j) f xs) =
     (if i = j then map_option f (find (\<lambda>e. id_attr e = Some i) xs)
      else find (\<lambda>e. id_attr e = Some i) xs)"
  using assms by (induction xs) auto

lemma mark_element_id: "id_attr (mark_element bm e) = id_attr e"
  by (simp add: mark_element_def)

lemma getElementById_marked:
  "getElementById
     (s\<lparr>elements := update_first (\<lambda>e. id_attr e = Some j) (mark_element bm) (elements s)\<rparr>) i =
   (if i = j then map_option (mark_element bm) (getElementById s i) else getElementById s i)"
  by (simp add: getElementById_def find_update_first[of "mark_element bm", OF mark_element_id])

lemma mark_each_keeps_userBookmark:
  "mark_each bms s = Inr s' \<Longrightarrow> getElementById s i = Some e \<Longrightarrow>
   data_bookmark_type e = Some ''userBookmark'' \<Longrightarrow>
   \<exists>e'. getElementById s' i = Some e' \<and> data_bookmark_type e' = Some ''userBookmark''"
proof (induction bms arbitrary: s e)
  case Nil
  then show ?case by simp
next
  case (Cons bm bms)
  show ?case
  proof (cases "ebBookmarksCheckForCurrentPage s (location bm)")
    case False
    with Cons show ?thesis by simp
  next
    case True
    define s1 where "s1 = s\<lparr>elements :=
      update_first (\<lambda>e. id_attr e = Some (id' bm)) (mark_element bm) (elements s)\<rparr>"
    from True Cons.prems(1) have run: "mark_each bms s1 = Inr s'"
      by (auto simp: s1_def split: option.splits)
    have "\<exists>e1. getElementById s1 i = Some e1 \<and> data_bookmark_type e1 = Some ''userBookmark''"
      using Cons.prems(2,3) unfolding s1_def getElementById_marked
      by (auto simp: mark_element_def)
    then show ?thesis using Cons.IH[OF run] by blast
  qed
qed

lemma mark_each_userBookmark:
  "mark_each bms s = Inr s' \<Longrightarrow> u \<in> set bms \<Longrightarrow> type' u = ''userBookmark'' \<Longrightarrow>
   ebBookmarksCheckForCurrentPage s (location u) \<Longrightarrow>
   \<exists>e'. getElementById s' (id' u) = Some e' \<and> data_bookmark_type e' = Some ''userBookmark''"
proof (induction bms arbitrary: s)
  case Nil
  then show ?case by simp
next
  case (Cons bm bms)
  show ?case
  proof (cases "ebBookmarksCheckForCurrentPage s (location bm)")
    case False
    with Cons.prems have "mark_each bms s = Inr s'" and "u \<in> set bms" by auto
    then show ?thesis using Cons.IH Cons.prems(3,4) by blast
  next
    case True
    define s1 where "s1 = s\<lparr>elements :=
      update_first (\<lambda>e. id_attr e = Some (id' bm)) (mark_element bm) (elements s)\<rparr>"
    from True Cons.prems(1) obtain e where e: "getElementById s (id' bm) = Some e"
      and run: "mark_each bms s1 = Inr s'"
      by (auto simp: s1_def split: option.splits)
    have page: "ebBookmarksCheckForCurrentPage s1 (location u)"
      using Cons.prems(4) by (simp add: s1_def ebBookmarksCheckForCurrentPage_def)
    show ?thesis
    proof (cases "u = bm")
      case True
      have "\<exists>e1. getElementById s1 (id' u) = Some e1 \<and> data_bookmark_type e1 = Some ''userBookmark''"
        using e True Cons.prems(3) unfolding s1_def getElementById_marked
        by (auto simp: mark_element_def)
      then show ?thesis using mark_each_keeps_userBookmark[OF run] by blast
    next
      case False
      with Cons.prems(2) have "u \<in> set bms" by simp
      then show ?thesis using Cons.IH[OF run _ Cons.prems(3) page] by blast
    qed
  qed
qed

subsection \<open>Storing a bookmark\<close>

lemma setItem_mem: "(k, v) \<in> set (setItem ls k v)"
  by (induction ls) auto

lemma setItem_subset: "set (setItem ls k v) \<subseteq> insert (k, v) (set ls)"
  by (induction ls) (auto split: if_splits)

lemma setItem_keys: "set (map fst (setItem ls k v)) = insert k (set (map fst ls))"
proof (induction ls)
  case Nil
  then show ?case by simp
next
  case (Cons kv ls)
  obtain k' v' where kv: "kv = (k', v')" by (cases kv)
  show ?case
  proof (cases "k' = k")
    case True
    with kv show ?thesis by simp
  next
    case False
    with kv Cons show ?thesis by (simp add: insert_commute)
  qed
qed

lemma setItem_distinct: "distinct (map fst ls) \<Longrightarrow> distinct (map fst (setItem ls k v))"
proof (induction ls)
  case Nil
  then show ?case by simp
next
  case (Cons kv ls)
  obtain k' v' where kv: "kv = (k', v')" by (cases kv)
  show ?case
  proof (cases "k' = k")
    case True
    with Cons kv show ?thesis by simp
  next
    case False
    have "k' \<notin> set (map fst (setItem ls k v))"
      using Cons.prems kv False unfolding setItem_keys by simp
    with Cons kv False show ?thesis by simp
  qed
qed

lemma filter_single:
  "distinct (map fst ls) \<Longrightarrow> (k, v) \<in> set ls \<Longrightarrow> P (k, v) \<Longrightarrow>
   (\<forall>kv \<in> set ls. P kv \<longrightarrow> fst kv = k) \<Longrightarrow> filter P ls = [(k, v)]"
proof (induction ls)
  case Nil
  then show ?case by simp
next
  case (Cons kv ls)
  show ?case
  proof (cases "kv = (k, v)")
    case True
    have "\<forall>x \<in> set ls. \<not> P x"
    proof
      fix x assume x: "x \<in> set ls"
      then have "fst x \<in> fst ` set ls" by simp
      then have "fst x \<noteq> k" using Cons.prems(1) True by auto
      then show "\<not> P x" using Cons.prems(4) x by auto
    qed
    then have "filter P ls = []" by (simp add: filter_empty_conv)
    with True Cons.prems(3) show ?thesis by simp
  next
    case False
    then have in_ls: "(k, v) \<in> set ls" using Cons.prems(2) by simp
    then have "k \<in> fst ` set ls" by force
    then have "fst kv \<noteq> k" using Cons.prems(1) by auto
    then have "\<not> P kv" using Cons.prems(4) by auto
    moreover have "filter P ls = [(k, v)]"
      using Cons.IH in_ls Cons.prems by simp
    ultimately show ?thesis by simp
  qed
qed

lemma capture_userBookmark:
  assumes "capture slugify now ''userBookmark'' e d s = Inr (b, m)"
  shows "key' b = ''bookmark-'' @ slugify (body_title s) @ ''-userBookmark''"
    and "type' b = ''userBookmark''" and "bookTitle b = body_title s"
    and "localStorage m = localStorage s"
  using assms
  by (auto simp: capture_def bookmarkKey_def ebBookmarksSessionDate_def Let_def
      split: sum.splits option.splits if_splits)

lemma capture_lastLocation:
  assumes "capture slugify now ''lastLocation'' e d s = Inr (b, m)"
  shows "\<exists>n. sessionDate_item m = Some n \<and>
     key' b = ''bookmark-'' @ slugify (body_title s) @ ''-lastLocation-'' @ ToString n"
  using assms
  by (auto simp: capture_def bookmarkKey_def ebBookmarksSessionDate_def Let_def
      split: sum.splits option.splits if_splits)

lemma setBookmark_user_single:
  fixes slugify :: "string \<Rightarrow> string"
  defines "K \<equiv> \<lambda>t. ''bookmark-'' @ slugify t @ ''-userBookmark''"
  assumes nll: "\<not> lastLocation_key (K (body_title s))"
    and dist: "distinct (map fst (localStorage s))"
    and inv: "\<forall>kv \<in> set (localStorage s). userBookmark_of (body_title s) kv \<longrightarrow> fst kv = K (body_title s)"
    and cap: "capture slugify now ''userBookmark'' e d s = Inr (b, m)"
    and run: "ebBookmarksSetBookmark slugify now ''userBookmark'' e d s = Inr s'"
  shows "key' b = K (body_title s)"
    and "filter (userBookmark_of (body_title s)) (localStorage s') = [(K (body_title s), Record b)]"
    and "distinct (map fst (localStorage s'))"
    and "\<forall>kv \<in> set (localStorage s'). userBookmark_of (body_title s) kv \<longrightarrow> fst kv = K (body_title s)"
proof -
  let ?T = "body_title s"
  show key: "key' b = K ?T" using capture_userBookmark(1)[OF cap] by (simp add: K_def)
  define ls1 where "ls1 = setItem (localStorage s) (K ?T) (Record b)"
  have "ebBookmarksCheckForBookmarks now (m\<lparr>localStorage := ls1\<rparr>) = Inr s'"
    using run cap key capture_userBookmark(4)[OF cap]
    by (simp add: ebBookmarksSetBookmark_def ls1_def)
  then have pr: "prunes ls1 (localStorage s')" using check_prunes by fastforce
  have d1: "distinct (map fst ls1)" unfolding ls1_def using dist by (rule setItem_distinct)
  show d': "distinct (map fst (localStorage s'))" using prunes_distinct[OF pr d1] .
  have ub: "userBookmark_of ?T (K ?T, Record b)"
    using capture_userBookmark(2,3)[OF cap] by simp
  have inv1: "\<forall>kv \<in> set ls1. userBookmark_of ?T kv \<longrightarrow> fst kv = K ?T"
    using inv setItem_subset[of "localStorage s" "K ?T" "Record b"] unfolding ls1_def by auto
  show inv': "\<forall>kv \<in> set (localStorage s'). userBookmark_of ?T kv \<longrightarrow> fst kv = K ?T"
    using inv1 prunes_subset[OF pr] by auto
  have "(K ?T, Record b) \<in> set ls1" unfolding ls1_def by (rule setItem_mem)
  then have "(K ?T, Record b) \<in> set (localStorage s')"
    using prunes_mem[OF pr] nll by simp
  then show "filter (userBookmark_of ?T) (localStorage s') = [(K ?T, Record b)]"
    using filter_single[OF d' _ ub inv'] by simp
qed

subsection \<open>When the entry of the current session outlasts a pass\<close>

text \<open>
  An entry of the current session that is among the last two last-location records of
  its title, in the order of the keys, is in the slice of line 149 and is kept by every
  pruning of a reconciliation pass.
\<close>

lemma among_last_two_getItem:
  "among_last_two t (k, v) ls \<Longrightarrow> getItem ls k = Some v"
proof -
  assume "among_last_two t (k, v) ls"
  then obtain pre post where ls: "ls = pre @ (k, v) # post" and k: "k \<notin> fst ` set pre"
    unfolding among_last_two_def by auto
  from k have "map_of pre k = None" by (simp add: map_of_eq_None_iff)
  then show ?thesis by (simp add: getItem_def ls map_add_def)
qed

lemma setItem_split:
  "\<exists>pre post. setItem ls k v = pre @ (k, v) # post \<and> k \<notin> fst ` set pre \<and>
     tl (dropWhile (\<lambda>kv. fst kv \<noteq> k) (setItem ls k v)) = post"
proof (induction ls)
  case Nil
  have "setItem [] k v = [] @ (k, v) # []" by simp
  then show ?case by fastforce
next
  case (Cons kv ls)
  obtain k' v' where kv: "kv = (k', v')" by (cases kv)
  show ?case
  proof (cases "k' = k")
    case True
    then have "setItem (kv # ls) k v = [] @ (k, v) # ls" using kv by simp
    then show ?thesis by fastforce
  next
    case False
    from Cons obtain pre post where p: "setItem ls k v = pre @ (k, v) # post"
      "k \<notin> fst ` set pre" "tl (dropWhile (\<lambda>kv. fst kv \<noteq> k) (setItem ls k v)) = post"
      by blast
    have "setItem (kv # ls) k v = ((k', v') # pre) @ (k, v) # post"
      using False kv p(1) by simp
    moreover have "k \<notin> fst ` set ((k', v') # pre)" using False p(2) by auto
    moreover have "tl (dropWhile (\<lambda>kv. fst kv \<noteq> k) (setItem (kv # ls) k v)) = post"
      using False kv p(3) by simp
    ultimately show ?thesis by blast
  qed
qed

lemma clean_keeps_current:
  assumes session: "sessionDate_item st = Some n"
    and near: "among_last_two T (K, Record b) (localStorage st)"
    and key: "lastLocation_key K" and incl: "includes_str K (ToString n)"
    and title: "bookTitle b = T" and cur: "sessionDate b = Stored n"
    and run: "ebBookmarksCleanLastLocations now t st = Inr st'"
  shows "among_last_two T (K, Record b) (localStorage st')"
proof -
  define ls where "ls = localStorage st"
  obtain pre post where ls: "ls = pre @ (K, Record b) # post" and K: "K \<notin> fst ` set pre"
    and post: "length (title_entries T post) \<le> 1"
    using near unfolding among_last_two_def ls_def by auto
  define bs where "bs = map snd (title_entries t ls)"
  define L where "L = fst (retained_lastLocations now bs st)"
  have coll: "collect_lastLocations t ls = Inr bs"
    using run collect_title_entries[of t ls]
    by (auto simp: clean_char ls_def bs_def split: sum.splits)
  have snd_r: "snd (retained_lastLocations now bs st) = st"
    using session by (simp add: retained_session)
  have "st' = st\<lparr>localStorage := filter (\<lambda>kv. \<not> unmatched t L kv) ls\<rparr>"
    using run coll snd_r by (simp add: clean_char ls_def L_def)
  then have st': "localStorage st' = filter (\<lambda>kv. \<not> unmatched t L kv) ls" by simp
  have keep: "\<not> unmatched t L (K, Record b)"
  proof (cases "t = T")
    case False
    then show ?thesis using title by auto
  next
    case True
    define A where "A = map snd (title_entries T pre)"
    define P where "P = map snd (title_entries T post)"
    have bs: "bs = A @ b # P"
      using key title True by (simp add: bs_def ls title_entries_append A_def P_def)
    have lenP: "length P \<le> 1" using post by (simp add: P_def)
    define sliced where "sliced = drop (length bs - 2) bs"
    have "length bs - 2 \<le> length A" using lenP by (simp add: bs)
    then have "sliced = drop (length bs - 2) A @ b # P" by (simp add: sliced_def bs)
    then have b_sl: "b \<in> set sliced" by simp
    define sorted where "sorted = sort_key (\<lambda>b. parseFloat (sessionDate b)) sliced"
    have b_so: "b \<in> set sorted" using b_sl by (simp add: sorted_def)
    have len: "length sorted \<le> 2" by (simp add: sorted_def sliced_def)
    let ?prior = "\<lambda>l::bookmark. sessionDate l \<noteq> Stored n"
    have "b \<in> set (filter (\<lambda>l. \<not> ?prior l) sorted)" using b_so cur by simp
    then have "length (filter (\<lambda>l. \<not> ?prior l) sorted) \<ge> 1"
      by (metis length_pos_if_in_set less_eq_Suc_le One_nat_def)
    moreover have "length (filter ?prior sorted) + length (filter (\<lambda>l. \<not> ?prior l) sorted)
        = length sorted"
      by (rule sum_length_filter_compl)
    ultimately have "\<not> length (filter ?prior sorted) > 1" using len by linarith
    then have "L = sorted"
      unfolding L_def using retained_session[OF session, of now bs]
      by (simp add: Let_def sorted_def sliced_def)
    then have bL: "b \<in> set L" using b_so by simp
    have ib: "includes_str K (ToString_sd (sessionDate b))" using incl cur by simp
    have "\<not> (\<forall>l \<in> set L. \<not> includes_str K (ToString_sd (sessionDate l)))"
      using bL ib by blast
    then have "matches K L \<noteq> 0" by (simp only: matches_0 not_False_eq_True)
    then show ?thesis by simp
  qed
  define P where "P = (\<lambda>kv. \<not> unmatched t L kv)"
  have 1: "localStorage st' = filter P pre @ (K, Record b) # filter P post"
    using keep by (simp add: st' ls P_def)
  have 2: "fst (K, Record b) \<notin> fst ` set (filter P pre)" using K by auto
  have "length (title_entries T (filter P post)) \<le> length (title_entries T post)"
    by (simp add: title_entries_filter)
  then have 3: "length (title_entries T (filter P post)) \<le> 1" using post by linarith
  show ?thesis
    unfolding among_last_two_def
    using 1 2 3 by (intro exI[of _ "filter P pre"] exI[of _ "filter P post"]) simp
qed

lemma clean_titles_keeps_current:
  assumes key: "lastLocation_key K" and incl: "includes_str K (ToString n)"
    and title: "bookTitle b = T" and cur: "sessionDate b = Stored n"
  shows "sessionDate_item st = Some n \<Longrightarrow> among_last_two T (K, Record b) (localStorage st) \<Longrightarrow>
    clean_titles now ks st = Inr st' \<Longrightarrow> among_last_two T (K, Record b) (localStorage st')"
proof (induction ks arbitrary: st)
  case Nil
  then show ?case by simp
next
  case (Cons k ks)
  show ?case
  proof (cases "startsWith k ''bookmark-'' \<and> getItem (localStorage st) k \<noteq> None")
    case False
    with Cons show ?thesis by (auto split: option.splits)
  next
    case True
    with Cons.prems(3) obtain entry :: bookmark and s1 where
      c: "ebBookmarksCleanLastLocations now (bookTitle entry) st = Inr s1"
      and r: "clean_titles now ks s1 = Inr st'"
      by (auto split: sum.splits option.splits)
    obtain ls1 where "s1 = st\<lparr>localStorage := ls1\<rparr>"
      using clean_session[OF Cons.prems(1) c] by blast
    then have sd1: "sessionDate_item s1 = Some n" using Cons.prems(1) by simp
    have "among_last_two T (K, Record b) (localStorage s1)"
      using clean_keeps_current[OF Cons.prems(1,2) key incl title cur c] .
    then show ?thesis using Cons.IH[OF sd1 _ r] by simp
  qed
qed

lemma list_each_keeps_current:
  assumes key: "lastLocation_key K" and incl: "includes_str K (ToString n)"
    and title: "bookTitle b = T" and cur: "sessionDate b = Stored n"
  shows "sessionDate_item st = Some n \<Longrightarrow> among_last_two T (K, Record b) (localStorage st) \<Longrightarrow>
    list_each now bms st = Inr st' \<Longrightarrow> among_last_two T (K, Record b) (localStorage st')"
proof (induction bms arbitrary: st)
  case Nil
  then show ?case by simp
next
  case (Cons bm bms)
  from Cons.prems(3) obtain s1 where c: "ebBookmarksCleanLastLocations now (bookTitle bm) st = Inr s1"
    by (auto split: sum.splits)
  obtain ls1 where "s1 = st\<lparr>localStorage := ls1\<rparr>"
    using clean_session[OF Cons.prems(1) c] by blast
  then have sd1: "sessionDate_item s1 = Some n" using Cons.prems(1) by simp
  have n1: "among_last_two T (K, Record b) (localStorage s1)"
    using clean_keeps_current[OF Cons.prems(1,2) key incl title cur c] .
  from c Cons.prems(3) sd1 have
    "list_each now bms s1 = Inr st' \<or>
     list_each now bms (s1\<lparr>lastLocationsList := lastLocationsList s1 @ [bm]\<rparr>) = Inr st' \<or>
     list_each now bms (s1\<lparr>bookmarksList := bookmarksList s1 @ [bm]\<rparr>) = Inr st'"
    by (auto simp: sessionDate_session split: if_splits)
  then show ?case
  proof (elim disjE)
    assume "list_each now bms s1 = Inr st'"
    then show ?thesis using Cons.IH[OF sd1 n1] by simp
  next
    assume r: "list_each now bms (s1\<lparr>lastLocationsList := lastLocationsList s1 @ [bm]\<rparr>) = Inr st'"
    show ?thesis
      using Cons.IH[of "s1\<lparr>lastLocationsList := lastLocationsList s1 @ [bm]\<rparr>", OF _ _ r] sd1 n1
      by simp
  next
    assume r: "list_each now bms (s1\<lparr>bookmarksList := bookmarksList s1 @ [bm]\<rparr>) = Inr st'"
    show ?thesis
      using Cons.IH[of "s1\<lparr>bookmarksList := bookmarksList s1 @ [bm]\<rparr>", OF _ _ r] sd1 n1
      by simp
  qed
qed

lemma check_keeps_current:
  assumes key: "lastLocation_key K" and incl: "includes_str K (ToString n)"
    and title: "bookTitle b = T" and cur: "sessionDate b = Stored n"
    and session: "sessionDate_item st = Some n"
    and near: "among_last_two T (K, Record b) (localStorage st)"
    and run: "ebBookmarksCheckForBookmarks now st = Inr st'"
  shows "among_last_two T (K, Record b) (localStorage st')"
proof -
  from run obtain s1 bookmarks s2 s3 where
    1: "clean_titles now (map fst (localStorage st)) st = Inr s1" and
    2: "visible_bookmarks now (localStorage s1) s1 = Inr (bookmarks, s2)" and
    3: "ebBookmarksMarkBookmarks bookmarks s2 = Inr s3" and
    4: "ebBookmarksListBookmarks now bookmarks s3 = Inr st'"
    by (auto simp: ebBookmarksCheckForBookmarks_def split: sum.splits)
  obtain ls1 where "s1 = st\<lparr>localStorage := ls1\<rparr>"
    using clean_titles_session[OF session 1] by blast
  then have sd1: "sessionDate_item s1 = Some n" using session by simp
  have n1: "among_last_two T (K, Record b) (localStorage s1)"
    using clean_titles_keeps_current[OF key incl title cur session near 1] .
  have s2: "s2 = s1" using visible_session[OF sd1 2] by simp
  have sd3: "sessionDate_item s3 = Some n"
    using 3 sd1 s2 mark_each_session unfolding ebBookmarksMarkBookmarks_def by fastforce
  have n3: "among_last_two T (K, Record b) (localStorage s3)"
    using n1 s2 mark_localStorage[OF 3] by simp
  show ?thesis
    using list_each_keeps_current[OF key incl title cur, of
        "s3\<lparr>bookmarksList := [], lastLocationsList := []\<rparr>" now bookmarks st'] sd3 n3 4
    by (simp add: ebBookmarksListBookmarks_def)
qed

lemma capture_lastLocation_session:
  assumes "sessionDate_item s = Some n"
    and "capture slugify now ''lastLocation'' e d s = Inr (b, m)"
  shows "m = s" and "sessionDate b = Stored n" and "bookTitle b = body_title s"
    and "key' b = ''bookmark-'' @ slugify (body_title s) @ ''-lastLocation-'' @ ToString n"
  using assms
  by (auto simp: capture_def bookmarkKey_def ebBookmarksSessionDate_def Let_def
      split: sum.splits option.splits if_splits)

subsection \<open>The example states, evaluated\<close>

text \<open>
  The examples are records of one book, \<open>''B''\<close>, under the keys that
  \<^verbatim>\<open>ebBookmarksSetBookmark\<close> derives with the slug \<open>''b''\<close>.
\<close>

lemma example_key_eq [simp]: "(example_key n = example_key m) = (n = m)"
  by (auto simp: example_key_def dest: ToString_inj)

lemma example_key_lastLocation [simp]: "lastLocation_key (example_key n)"
  unfolding example_key_def lastLocation_key_def startsWith_def includes_str_def
proof
  show "prefix ''bookmark-'' (''bookmark-b-lastLocation-'' @ ToString n)" by simp
  have "sublist ''-lastLocation-'' (''bookmark-b'' @ ''-lastLocation-'' @ ToString n)"
    by (rule sublist_appendI)
  then show "sublist ''-lastLocation-'' (''bookmark-b-lastLocation-'' @ ToString n)" by simp
qed

lemma example_key_bookmark [simp]: "startsWith (example_key n) ''bookmark-''"
  using example_key_lastLocation by (simp add: lastLocation_key_def)

lemma example_lastLocation_sel [simp]:
  "sessionDate (example_lastLocation n) = Stored n"
  "type' (example_lastLocation n) = ''lastLocation''"
  "bookTitle (example_lastLocation n) = ''B''"
  "key' (example_lastLocation n) = example_key n"
  by (simp_all add: example_lastLocation_def)

lemma example_lastLocation_eq [simp]: "(example_lastLocation n = example_lastLocation m) = (n = m)"
  by (auto simp: example_lastLocation_def)

lemma example_lastLocation_location [simp]:
  "location (example_lastLocation n) = ''https://site/one.html#p1''"
  by (simp add: example_lastLocation_def)

lemma example_userBookmark_sel [simp]:
  "type' example_userBookmark = ''userBookmark''"
  "bookTitle example_userBookmark = ''B''"
  "key' example_userBookmark = ''bookmark-b-userBookmark''"
  "sessionDate example_userBookmark = Stored 1000"
  by (simp_all add: example_userBookmark_def)

lemma example_other_sel [simp]:
  "type' example_other = ''lastLocation''"
  "bookTitle example_other = ''C''"
  "key' example_other = ''bookmark-c-lastLocation-1000''"
  "sessionDate example_other = Stored 1000"
  by (simp_all add: example_other_def)

lemma user_key_facts [simp]:
  "startsWith ''bookmark-b-userBookmark'' ''bookmark-''"
  "\<not> lastLocation_key ''bookmark-b-userBookmark''"
  "example_key n \<noteq> ''bookmark-b-userBookmark''"
  "''bookmark-b-userBookmark'' \<noteq> example_key n"
  by (simp_all add: startsWith_def lastLocation_key_def includes_str_def sublist_Cons_right
      example_key_def)

lemma other_key_facts [simp]:
  "lastLocation_key ''bookmark-c-lastLocation-1000''"
  "example_key n \<noteq> ''bookmark-c-lastLocation-1000''"
  "\<not> startsWith ''theme'' ''bookmark-''"
  "\<not> lastLocation_key ''theme''"
  by (simp_all add: startsWith_def lastLocation_key_def includes_str_def sublist_Cons_right
      example_key_def)

lemma ToString_1000: "ToString 1000 = ''1000''" by (simp add: ToString.simps digit_def)

lemma ToString_2000: "ToString 2000 = ''2000''" by (simp add: ToString.simps digit_def)

lemma ToString_3000: "ToString 3000 = ''3000''" by (simp add: ToString.simps digit_def)

lemma ToString_4000: "ToString 4000 = ''4000''" by (simp add: ToString.simps digit_def)


lemma includes_example:
  "includes_str (example_key 1000) (ToString 1000)"
  "\<not> includes_str (example_key 1000) (ToString 2000)"
  "\<not> includes_str (example_key 1000) (ToString 3000)"
  "\<not> includes_str (example_key 2000) (ToString 1000)"
  "includes_str (example_key 2000) (ToString 2000)"
  "\<not> includes_str (example_key 2000) (ToString 3000)"
  "\<not> includes_str (example_key 3000) (ToString 1000)"
  "\<not> includes_str (example_key 3000) (ToString 2000)"
  "includes_str (example_key 3000) (ToString 3000)"
  "\<not> includes_str (example_key 4000) (ToString 2000)"
  by (simp_all add: example_key_def includes_str_def ToString_1000 ToString_2000 ToString_3000
      ToString_4000 sublist_Cons_right)


lemma split_hash_examples [simp]:
  "split_hash_0 ''https://site/two.html'' = ''https://site/two.html''"
  "split_hash_0 ''https://site/one.html#p1'' = ''https://site/one.html''"
  "split_hash_0 ''https://site/intro.html#intro'' = ''https://site/intro.html''"
  by (simp_all add: split_hash_0_def)

lemma example_capture_sel [simp]:
  "type' (example_capture d) = ''userBookmark''"
  "bookTitle (example_capture d) = ''B''"
  "key' (example_capture d) = ''bookmark-b-userBookmark''"
  "sessionDate (example_capture d) = Stored 1000"
  "location (example_capture d) = ''https://site/intro.html#intro''"
  "id' (example_capture d) = ''intro''"
  "description (example_capture d) = d"
  by (simp_all add: example_capture_def)

lemma example_visit_sel [simp]:
  "type' example_visit = ''lastLocation''"
  "bookTitle example_visit = ''B''"
  "sessionDate example_visit = Stored 900"
  "location example_visit = ''https://site/intro.html#intro''"
  "id' example_visit = ''intro''"
  "description example_visit = ''Introductio''"
  by (simp_all add: example_visit_def)

lemma example_element_sel [simp]:
  "id_attr example_heading = Some ''intro''"
  "data_fingerprint example_heading = Some ''abc''"
  "innerText example_heading = ''Introduction''"
  "id_attr (example_marked d t) = Some ''intro''"
  "data_fingerprint (example_marked d t) = Some ''abc''"
  "data_bookmark_type (example_marked d t) = Some t"
  by (simp_all add: example_heading_def example_marked_def)

lemma example_mark [simp]:
  "mark_element bm (example_heading\<lparr>data_bookmarked := None\<rparr>) =
     example_marked (description bm) (type' bm)"
  "mark_element bm ((example_marked d ''userBookmark'')\<lparr>data_bookmarked := None\<rparr>) =
     example_marked (description bm) ''userBookmark''"
  by (simp_all add: mark_element_def example_marked_def example_heading_def)

lemma example_page_storage [simp]:
  "localStorage (example_page ls e bl) = ls"
  "(example_page ls e bl)\<lparr>localStorage := ls'\<rparr> = example_page ls' e bl"
  by (simp_all add: example_page_def)

lemma fallback_example: "fallback_description ''Introduction'' = ''Introductio'' @ ellipsis_suffix"
  by (simp add: fallback_description_def slice_0_def Let_def)

lemma capture_example:
  assumes "id_attr e = Some ''intro''" and "data_fingerprint e = Some ''abc''" and "d \<noteq> []"
  shows "capture example_slugify now ''userBookmark'' (Some e) (Some d) (example_page ls e bl) =
     Inr (example_capture d, example_page ls e bl)"
  using assms
  by (simp add: capture_def ebBookmarksSessionDate_def ebBookmarksElementID_def element_id_def
      example_page_def example_capture_def bookmarkKey_def example_slugify_def split_hash_0_def)

lemma check_page_example:
  "ebBookmarksCheckForBookmarks now
     (example_page [(''bookmark-b-userBookmark'', Record (example_capture d))] example_heading bl) =
   Inr (example_page [(''bookmark-b-userBookmark'', Record (example_capture d))]
          (example_marked d ''userBookmark'') [example_capture d])"
  "ebBookmarksCheckForBookmarks now
     (example_page [(''bookmark-b-userBookmark'', Record (example_capture d))]
        (example_marked d0 ''userBookmark'') bl) =
   Inr (example_page [(''bookmark-b-userBookmark'', Record (example_capture d))]
          (example_marked d ''userBookmark'') [example_capture d])"
  by (simp_all add: ebBookmarksCheckForBookmarks_def
      getItem_def ebBookmarksMarkBookmarks_def ebBookmarksListBookmarks_def
      ebBookmarksCheckForCurrentPage_def getElementById_def
      ebBookmarksCleanLastLocations_def example_page_def
      retained_lastLocations_def ebBookmarksSessionDate_def)

lemma setBookmark_example_1:
  "ebBookmarksSetBookmark example_slugify 10 ''userBookmark'' (Some example_heading)
     (Some ''first'') (example_page [] example_heading []) =
   Inr (example_page [(''bookmark-b-userBookmark'', Record (example_capture ''first''))]
          (example_marked ''first'' ''userBookmark'') [example_capture ''first''])"
  by (simp add: ebBookmarksSetBookmark_def capture_example check_page_example)

lemma setBookmark_example_2:
  "ebBookmarksSetBookmark example_slugify 20 ''userBookmark''
     (Some (example_marked ''first'' ''userBookmark'')) (Some ''second'')
     (example_page [(''bookmark-b-userBookmark'', Record (example_capture ''first''))]
          (example_marked ''first'' ''userBookmark'') [example_capture ''first'']) =
   Inr (example_page [(''bookmark-b-userBookmark'', Record (example_capture ''second''))]
          (example_marked ''second'' ''userBookmark'') [example_capture ''second''])"
  by (simp add: ebBookmarksSetBookmark_def capture_example check_page_example)

lemma mark_example:
  "ebBookmarksMarkBookmarks [example_capture ''x'', example_visit]
     (example_page [] example_heading []) =
   Inr (example_page [] (example_marked ''Introductio'' ''userBookmark'') [])"
  by (simp add: ebBookmarksMarkBookmarks_def ebBookmarksCheckForCurrentPage_def
      getElementById_def example_page_def mark_element_def example_marked_def example_heading_def)



lemma clean_example_3:
  "ebBookmarksCleanLastLocations 10 ''B''
     (example_state [example_entry 1000, example_entry 2000, example_entry 3000] (Some 3000))
   = Inr (example_state [example_entry 2000, example_entry 3000] (Some 3000))"
  by (simp add: ebBookmarksCleanLastLocations_def example_state_def example_entry_def
      retained_lastLocations_def ebBookmarksSessionDate_def matches_def includes_example)

lemma own_example_3:
  "own_sessionDate_only ''B'' [example_entry 1000, example_entry 2000, example_entry 3000]"
  by (simp add: own_sessionDate_only_def example_entry_def includes_example)

lemma clean_example_4:
  "ebBookmarksCleanLastLocations 10 ''B''
     (example_state [example_entry 1000, example_entry 2000, example_entry 3000,
        (''bookmark-b-userBookmark'', Record example_userBookmark),
        (''bookmark-c-lastLocation-1000'', Record example_other),
        (''theme'', Raw ''dark'')] (Some 4000))
   = Inr (example_state [example_entry 3000,
        (''bookmark-b-userBookmark'', Record example_userBookmark),
        (''bookmark-c-lastLocation-1000'', Record example_other),
        (''theme'', Raw ''dark'')] (Some 4000))"
  by (simp add: ebBookmarksCleanLastLocations_def example_state_def example_entry_def
      retained_lastLocations_def ebBookmarksSessionDate_def matches_def includes_example)

lemma delete_example:
  "ebBookmarksDeleteBookmark 10 example_userBookmark
     (example_state [example_entry 2000, example_entry 3000,
        (''bookmark-b-userBookmark'', Record example_userBookmark)] (Some 1000))
   = Inr ((example_state [example_entry 3000] (Some 1000))
            \<lparr>lastLocationsList := [example_lastLocation 3000]\<rparr>)"
  by (simp add: ebBookmarksDeleteBookmark_def ebBookmarksCheckForBookmarks_def removeItem_def
      getItem_def ebBookmarksMarkBookmarks_def ebBookmarksListBookmarks_def
      ebBookmarksCheckForCurrentPage_def
      ebBookmarksCleanLastLocations_def example_state_def example_entry_def
      retained_lastLocations_def ebBookmarksSessionDate_def matches_def includes_example)

lemma check_example_2:
  "ebBookmarksCheckForBookmarks 10
     (example_state [example_entry 2000, example_entry 1000] (Some 1000))
   = Inr ((example_state [example_entry 2000, example_entry 1000] (Some 1000))
            \<lparr>lastLocationsList := [example_lastLocation 2000]\<rparr>)"
  by (simp add: ebBookmarksCheckForBookmarks_def
      getItem_def ebBookmarksMarkBookmarks_def ebBookmarksListBookmarks_def
      ebBookmarksCheckForCurrentPage_def
      ebBookmarksCleanLastLocations_def example_state_def example_entry_def
      retained_lastLocations_def ebBookmarksSessionDate_def matches_def includes_example)

lemma example_leave_sel [simp]:
  "type' example_leave = ''lastLocation''"
  "bookTitle example_leave = ''B''"
  "sessionDate example_leave = Stored 1000"
  "key' example_leave = example_key 1000"
  by (simp_all add: example_leave_def)

lemma capture_leave_example:
  "capture example_slugify 10 ''lastLocation'' (Some example_heading) None
     (example_page ls example_heading []) =
   Inr (example_leave, example_page ls example_heading [])"
  by (simp add: capture_def ebBookmarksSessionDate_def ebBookmarksElementID_def element_id_def
      example_page_def example_leave_def bookmarkKey_def example_slugify_def split_hash_0_def
      fallback_example example_key_def)

lemma check_leave_example:
  "ebBookmarksCheckForBookmarks 10
     (example_page [(example_key 1000, Record example_leave), example_entry 2000, example_entry 3000]
        example_heading []) =
   Inr ((example_page [example_entry 3000] example_heading [])
          \<lparr>lastLocationsList := [example_lastLocation 3000]\<rparr>)"
  by (simp add: ebBookmarksCheckForBookmarks_def
      getItem_def ebBookmarksMarkBookmarks_def ebBookmarksListBookmarks_def
      ebBookmarksCheckForCurrentPage_def
      ebBookmarksCleanLastLocations_def example_page_def example_entry_def example_heading_def
      retained_lastLocations_def ebBookmarksSessionDate_def matches_def includes_example)

lemma check_leave_example_2:
  "ebBookmarksCheckForBookmarks 10
     (example_page [example_entry 2000, example_entry 3000, (example_key 1000, Record example_leave)]
        example_heading []) =
   Inr ((example_page [example_entry 3000, (example_key 1000, Record example_leave)] example_heading [])
          \<lparr>lastLocationsList := [example_lastLocation 3000]\<rparr>)"
  by (simp add: ebBookmarksCheckForBookmarks_def
      getItem_def ebBookmarksMarkBookmarks_def ebBookmarksListBookmarks_def
      ebBookmarksCheckForCurrentPage_def
      ebBookmarksCleanLastLocations_def example_page_def example_entry_def example_heading_def
      retained_lastLocations_def ebBookmarksSessionDate_def matches_def includes_example)

lemma setBookmark_leave_example:
  "ebBookmarksSetBookmark example_slugify 10 ''lastLocation'' (Some example_heading) None
     (example_page [example_entry 2000, example_entry 3000] example_heading []) =
   Inr ((example_page [example_entry 3000, (example_key 1000, Record example_leave)] example_heading [])
          \<lparr>lastLocationsList := [example_lastLocation 3000]\<rparr>)"
proof -
  have "setItem [example_entry 2000, example_entry 3000] (example_key 1000) (Record example_leave) =
        [example_entry 2000, example_entry 3000, (example_key 1000, Record example_leave)]"
    by (simp add: example_entry_def)
  then show ?thesis
    by (simp add: ebBookmarksSetBookmark_def capture_leave_example check_leave_example_2)
qed

section \<open>The claims\<close>

text \<open>
  Claim C1: after pruning, at most two last-location records of the title remain, and
  they are the most recent ones by session timestamp. The code takes the last two records
  in the order of the keys (line 149) before it sorts them (line 152), so with the records
  of sessions 3000, 4000, 1000 and 2000 enumerated in this order, and none of the current
  session 5000, it keeps the record of session 2000 alone and deletes the two most recent.
\<close>

theorem clean_keeps_by_position:
  "ebBookmarksCleanLastLocations 6000 ''B''
     (example_state [example_entry 3000, example_entry 4000, example_entry 1000, example_entry 2000] (Some 5000))
   = Inr (example_state [example_entry 2000] (Some 5000))"
  by (simp add: ebBookmarksCleanLastLocations_def example_state_def example_entry_def
      retained_lastLocations_def ebBookmarksSessionDate_def matches_def includes_example)


text \<open>
  Claim C3: every call of \<^verbatim>\<open>ebBookmarksSessionDate\<close> in one session returns the same
  value. The first call returns the Number that \<^verbatim>\<open>Date.now()\<close> gave (line 128), every
  later call the String that \<^verbatim>\<open>sessionStorage\<close> holds (line 123): the two are not
  identical.
\<close>

theorem sessionDate_number_then_string:
  "ebBookmarksSessionDate 1700000000000 (example_state [] None) =
     (Timestamp 1700000000000, example_state [] (Some 1700000000000)) \<and>
   ebBookmarksSessionDate 1700000000001 (example_state [] (Some 1700000000000)) =
     (Stored 1700000000000, example_state [] (Some 1700000000000)) \<and>
   Timestamp 1700000000000 \<noteq> Stored 1700000000000"
  by (simp add: ebBookmarksSessionDate_def example_state_def)

text \<open>
  Claim C4: two UserBookmark captures for one title derive the same key, of the type
  only, and leave one UserBookmark record, the second capture's; a LastLocation capture
  derives a key of the type and the session and so creates an entry of its own for each
  session. The key is derived so, but the entry does not always outlast the call: the
  reconciliation pass that ends the call prunes by position (claims C1 and C7). In the
  session 1000, with the entries of the sessions 2000 and 3000 enumerated after its own,
  the capture writes its entry and the pass deletes it.
\<close>

theorem lastLocation_entry_pruned_at_once:
  "capture example_slugify 10 ''lastLocation'' (Some example_heading) None
     (example_page [example_entry 1000, example_entry 2000, example_entry 3000] example_heading []) =
     Inr (example_leave,
          example_page [example_entry 1000, example_entry 2000, example_entry 3000] example_heading []) \<and>
   key' example_leave = ''bookmark-'' @ example_slugify ''B'' @ ''-lastLocation-'' @ ToString 1000 \<and>
   ebBookmarksSetBookmark example_slugify 10 ''lastLocation'' (Some example_heading) None
     (example_page [example_entry 1000, example_entry 2000, example_entry 3000] example_heading []) =
     Inr ((example_page [example_entry 3000] example_heading [])
            \<lparr>lastLocationsList := [example_lastLocation 3000]\<rparr>) \<and>
   getItem (localStorage ((example_page [example_entry 3000] example_heading [])
            \<lparr>lastLocationsList := [example_lastLocation 3000]\<rparr>)) (key' example_leave) = None"
proof (intro conjI)
  show "capture example_slugify 10 ''lastLocation'' (Some example_heading) None
     (example_page [example_entry 1000, example_entry 2000, example_entry 3000] example_heading []) =
     Inr (example_leave,
          example_page [example_entry 1000, example_entry 2000, example_entry 3000] example_heading [])"
    by (rule capture_leave_example)
  show "key' example_leave = ''bookmark-'' @ example_slugify ''B'' @ ''-lastLocation-'' @ ToString 1000"
    by (simp add: example_key_def example_slugify_def)
  have "setItem [example_entry 1000, example_entry 2000, example_entry 3000]
          (example_key 1000) (Record example_leave) =
        [(example_key 1000, Record example_leave), example_entry 2000, example_entry 3000]"
    by (simp add: example_entry_def)
  then show "ebBookmarksSetBookmark example_slugify 10 ''lastLocation'' (Some example_heading) None
     (example_page [example_entry 1000, example_entry 2000, example_entry 3000] example_heading []) =
     Inr ((example_page [example_entry 3000] example_heading [])
            \<lparr>lastLocationsList := [example_lastLocation 3000]\<rparr>)"
    by (simp add: ebBookmarksSetBookmark_def capture_leave_example check_leave_example)
  show "getItem (localStorage ((example_page [example_entry 3000] example_heading [])
            \<lparr>lastLocationsList := [example_lastLocation 3000]\<rparr>)) (key' example_leave) = None"
    by (simp add: getItem_def example_entry_def)
qed

text \<open>
  Claim C5, as stated, fails: the reconciliation pass prunes. A session 1000 that meets
  the last-location records of two other sessions deletes, with the UserBookmark it was
  asked to delete, the record of session 2000.
\<close>

theorem delete_prunes_counterexample:
  "ebBookmarksDeleteBookmark 10 example_userBookmark
     (example_state [example_entry 2000, example_entry 3000,
        (''bookmark-b-userBookmark'', Record example_userBookmark)] (Some 1000))
   = Inr ((example_state [example_entry 3000] (Some 1000))
            \<lparr>lastLocationsList := [example_lastLocation 3000]\<rparr>) \<and>
   example_key 2000 \<noteq> key' example_userBookmark \<and>
   getItem (localStorage (example_state [example_entry 2000, example_entry 3000,
        (''bookmark-b-userBookmark'', Record example_userBookmark)] (Some 1000))) (example_key 2000)
     = Some (Record (example_lastLocation 2000)) \<and>
   getItem (localStorage ((example_state [example_entry 3000] (Some 1000))
            \<lparr>lastLocationsList := [example_lastLocation 3000]\<rparr>)) (example_key 2000) = None"
  using delete_example by (simp add: getItem_def example_state_def example_entry_def)

text \<open>
  Claim C5, amended: \<^verbatim>\<open>ebBookmarksDeleteBookmark\<close> removes every entry under the key
  of the record; whatever else it removes is a record under a last-location key, pruned by
  the reconciliation pass; the entries that remain are unchanged and in their order, and none
  is added.
\<close>

theorem delete_frame:
  assumes "ebBookmarksDeleteBookmark now bookmark s = Inr s'"
  shows "\<exists>keep. localStorage s' = filter keep (localStorage s) \<and>
           (\<forall>v. \<not> keep (key' bookmark, v)) \<and>
           (\<forall>k v. (k, v) \<in> set (localStorage s) \<and> \<not> keep (k, v) \<longrightarrow>
              k = key' bookmark \<or> lastLocation_key k \<and> (\<exists>b. v = Record b))"
proof -
  define ls1 where "ls1 = removeItem (localStorage s) (key' bookmark)"
  have "prunes ls1 (localStorage s')"
    using check_prunes[OF assms[unfolded ebBookmarksDeleteBookmark_def]] by (simp add: ls1_def)
  then obtain keep where keep: "localStorage s' = filter keep ls1"
    "\<forall>kv \<in> set ls1. \<not> keep kv \<longrightarrow> lastLocation_key (fst kv) \<and> (\<exists>b. snd kv = Record b)"
    unfolding prunes_def by blast
  define keep' where "keep' = (\<lambda>kv. fst kv \<noteq> key' bookmark \<and> keep kv)"
  have "localStorage s' = filter keep' (localStorage s)"
    using keep(1) by (simp add: ls1_def removeItem_def keep'_def conj_commute)
  moreover have "\<forall>v. \<not> keep' (key' bookmark, v)" by (simp add: keep'_def)
  moreover have "\<forall>k v. (k, v) \<in> set (localStorage s) \<and> \<not> keep' (k, v) \<longrightarrow>
              k = key' bookmark \<or> lastLocation_key k \<and> (\<exists>b. v = Record b)"
    using keep(2) by (auto simp: keep'_def ls1_def removeItem_def)
  ultimately show ?thesis by blast
qed

text \<open>
  The amended claim at the state of the counterexample.
\<close>

theorem delete_frame_witness:
  "ebBookmarksDeleteBookmark 10 example_userBookmark
     (example_state [example_entry 2000, example_entry 3000,
        (''bookmark-b-userBookmark'', Record example_userBookmark)] (Some 1000))
   = Inr ((example_state [example_entry 3000] (Some 1000))
            \<lparr>lastLocationsList := [example_lastLocation 3000]\<rparr>) \<and>
   (\<exists>keep. localStorage ((example_state [example_entry 3000] (Some 1000))
            \<lparr>lastLocationsList := [example_lastLocation 3000]\<rparr>) =
        filter keep (localStorage (example_state [example_entry 2000, example_entry 3000,
        (''bookmark-b-userBookmark'', Record example_userBookmark)] (Some 1000))) \<and>
      (\<forall>v. \<not> keep (key' example_userBookmark, v)) \<and>
      (\<forall>k v. (k, v) \<in> set (localStorage (example_state [example_entry 2000, example_entry 3000,
        (''bookmark-b-userBookmark'', Record example_userBookmark)] (Some 1000))) \<and> \<not> keep (k, v) \<longrightarrow>
          k = key' example_userBookmark \<or> lastLocation_key k \<and> (\<exists>b. v = Record b)))"
  using delete_example delete_frame[OF delete_example] by blast

text \<open>
  Claim C6: \<^verbatim>\<open>ebBookmarksFingerprintID\<close> returns false when no element has the id, when
  the element has no fingerprint, and when session storage holds no index; when the id
  indexed for the element's fingerprint is not the id asked for, it alerts once and returns
  nothing; when it is, it returns the id. No case changes anything but the count of
  alerts.
\<close>

theorem fingerprintID_cases:
  "(getElementById s elementID = None \<longrightarrow>
      ebBookmarksFingerprintID elementID s = (ReturnFalse, s)) \<and>
   (\<forall>e. getElementById s elementID = Some e \<and>
        (data_fingerprint e = None \<or> data_fingerprint e = Some [] \<or> index_of_bookmarks s = None) \<longrightarrow>
      ebBookmarksFingerprintID elementID s = (ReturnFalse, s)) \<and>
   (\<forall>e f ix. getElementById s elementID = Some e \<and> data_fingerprint e = Some f \<and> f \<noteq> [] \<and>
        index_of_bookmarks s = Some ix \<and> map_of ix f \<noteq> Some elementID \<longrightarrow>
      ebBookmarksFingerprintID elementID s = (ReturnUndefined, s\<lparr>alerts := alerts s + 1\<rparr>)) \<and>
   (\<forall>e f ix. getElementById s elementID = Some e \<and> data_fingerprint e = Some f \<and> f \<noteq> [] \<and>
        index_of_bookmarks s = Some ix \<and> map_of ix f = Some elementID \<longrightarrow>
      ebBookmarksFingerprintID elementID s = (ReturnID elementID, s))"
  by (auto simp: ebBookmarksFingerprintID_def split: option.splits)

text \<open>
  The four cases on a page with three sections: no element \<open>sec-1\<close>; no fingerprint
  on \<open>sec-5\<close>; the fingerprint of \<open>sec-9\<close> indexed to \<open>sec-3\<close>; the fingerprint of
  \<open>sec-4\<close> indexed to \<open>sec-4\<close>.
\<close>

theorem fingerprintID_cases_witness:
  "ebBookmarksFingerprintID ''sec-1'' example_document = (ReturnFalse, example_document) \<and>
   ebBookmarksFingerprintID ''sec-5'' example_document = (ReturnFalse, example_document) \<and>
   ebBookmarksFingerprintID ''sec-9'' example_document =
     (ReturnUndefined, example_document\<lparr>alerts := alerts example_document + 1\<rparr>) \<and>
   ebBookmarksFingerprintID ''sec-4'' example_document = (ReturnID ''sec-4'', example_document)"
proof (intro conjI)
  have "getElementById example_document ''sec-1'' = None"
    by (simp add: getElementById_def example_document_def)
  then show "ebBookmarksFingerprintID ''sec-1'' example_document = (ReturnFalse, example_document)"
    using fingerprintID_cases[of example_document "''sec-1''"] by blast
  have "getElementById example_document ''sec-5'' = Some (elements example_document ! 2)"
    and "data_fingerprint (elements example_document ! 2) = None"
    by (simp_all add: getElementById_def example_document_def)
  then show "ebBookmarksFingerprintID ''sec-5'' example_document = (ReturnFalse, example_document)"
    using fingerprintID_cases[of example_document "''sec-5''"] by blast
  have "getElementById example_document ''sec-9'' = Some (elements example_document ! 0)"
    and "data_fingerprint (elements example_document ! 0) = Some ''abc''" and "''abc'' \<noteq> []"
    and "index_of_bookmarks example_document = Some [(''abc'', ''sec-3''), (''def'', ''sec-4'')]"
    and "map_of [(''abc'', ''sec-3''), (''def'', ''sec-4'')] ''abc'' \<noteq> Some ''sec-9''"
    by (simp_all add: getElementById_def example_document_def)
  then show "ebBookmarksFingerprintID ''sec-9'' example_document =
     (ReturnUndefined, example_document\<lparr>alerts := alerts example_document + 1\<rparr>)"
    using fingerprintID_cases[of example_document "''sec-9''"] by blast
  have "getElementById example_document ''sec-4'' = Some (elements example_document ! 1)"
    and "data_fingerprint (elements example_document ! 1) = Some ''def''" and "''def'' \<noteq> []"
    and "index_of_bookmarks example_document = Some [(''abc'', ''sec-3''), (''def'', ''sec-4'')]"
    and "map_of [(''abc'', ''sec-3''), (''def'', ''sec-4'')] ''def'' = Some ''sec-4''"
    by (simp_all add: getElementById_def example_document_def)
  then show "ebBookmarksFingerprintID ''sec-4'' example_document = (ReturnID ''sec-4'', example_document)"
    using fingerprintID_cases[of example_document "''sec-4''"] by blast
qed

text \<open>
  Claim C7: the current session's last-location record is left out of the visible set
  and of the rendered list, and stays in storage. The first two hold; the third does not,
  by the positional slice of claim C1: when the records of two other sessions follow it in
  the order of the keys, the pruning that \<^verbatim>\<open>ebBookmarksCheckForBookmarks\<close> starts with
  deletes the record of the current session 1000.
\<close>

theorem check_drops_current_session:
  "ebBookmarksCheckForBookmarks 10
     (example_state [example_entry 1000, example_entry 2000, example_entry 3000] (Some 1000))
   = Inr ((example_state [example_entry 3000] (Some 1000))
            \<lparr>lastLocationsList := [example_lastLocation 3000]\<rparr>) \<and>
   sessionDate (example_lastLocation 1000) = Stored 1000 \<and>
   getItem (localStorage ((example_state [example_entry 3000] (Some 1000))
            \<lparr>lastLocationsList := [example_lastLocation 3000]\<rparr>)) (example_key 1000) = None"
proof -
  have "ebBookmarksCheckForBookmarks 10
     (example_state [example_entry 1000, example_entry 2000, example_entry 3000] (Some 1000))
   = Inr ((example_state [example_entry 3000] (Some 1000))
            \<lparr>lastLocationsList := [example_lastLocation 3000]\<rparr>)"
    by (simp add: ebBookmarksCheckForBookmarks_def
      getItem_def ebBookmarksMarkBookmarks_def ebBookmarksListBookmarks_def
      ebBookmarksCheckForCurrentPage_def
      ebBookmarksCleanLastLocations_def example_state_def example_entry_def
      retained_lastLocations_def ebBookmarksSessionDate_def matches_def includes_example)
  then show ?thesis by (simp add: getItem_def example_state_def example_entry_def)
qed

text \<open>
  Claim C8: a description that is passed is stored as it is; without one, the
  description is the first 50 characters of the element's text up to the last space or
  full stop, and an ellipsis. When the 50 characters have neither, \<^verbatim>\<open>lastIndexOf\<close>
  gives -1 and \<^verbatim>\<open>slice(0, -1)\<close> cuts the last character off (lines 468-474): the
  heading \<open>''Introduction''\<close> is described as \<open>''Introductio''\<close> and the ellipsis.
\<close>

theorem fallback_cuts_single_word:
  "capture example_slugify 10 ''userBookmark'' (Some example_heading) None
     (example_page [] example_heading []) =
   Inr (example_capture (''Introductio'' @ ellipsis_suffix), example_page [] example_heading []) \<and>
   innerText example_heading = ''Introduction''"
  by (simp add: capture_def ebBookmarksSessionDate_def ebBookmarksElementID_def element_id_def
      example_page_def example_capture_def bookmarkKey_def example_slugify_def split_hash_0_def
      fallback_example)

text \<open>
  Claim C9: whatever the order of the records, an element of the current page that a
  UserBookmark record and a LastLocation record both target is marked with the type
  \<open>userBookmark\<close> when \<^verbatim>\<open>ebBookmarksMarkBookmarks\<close> returns.
\<close>

theorem userBookmark_precedence:
  assumes "ebBookmarksMarkBookmarks bookmarks s = Inr s'"
    and "u \<in> set bookmarks" and "type' u = ''userBookmark''"
    and "ebBookmarksCheckForCurrentPage s (location u)"
    and "l \<in> set bookmarks" and "type' l = ''lastLocation''"
    and "ebBookmarksCheckForCurrentPage s (location l)"
    and "id' l = id' u"
  shows "\<exists>e. getElementById s' (id' u) = Some e \<and> data_bookmark_type e = Some ''userBookmark''"
proof -
  define s0 where "s0 = s\<lparr>elements := map (\<lambda>e. e\<lparr>data_bookmarked := None\<rparr>) (elements s)\<rparr>"
  have run: "mark_each bookmarks s0 = Inr s'"
    using assms(1) by (simp add: ebBookmarksMarkBookmarks_def s0_def)
  have "ebBookmarksCheckForCurrentPage s0 (location u)"
    using assms(4) by (simp add: s0_def ebBookmarksCheckForCurrentPage_def)
  then show ?thesis using mark_each_userBookmark[OF run assms(2,3)] by blast
qed

text \<open>
  The UserBookmark first and the LastLocation after it, both on the heading of the page.
\<close>

theorem userBookmark_precedence_witness:
  "ebBookmarksMarkBookmarks [example_capture ''x'', example_visit]
     (example_page [] example_heading []) =
   Inr (example_page [] (example_marked ''Introductio'' ''userBookmark'') []) \<and>
   type' (example_capture ''x'') = ''userBookmark'' \<and> type' example_visit = ''lastLocation'' \<and>
   id' example_visit = id' (example_capture ''x'') \<and>
   ebBookmarksCheckForCurrentPage (example_page [] example_heading []) (location (example_capture ''x'')) \<and>
   ebBookmarksCheckForCurrentPage (example_page [] example_heading []) (location example_visit) \<and>
   (\<exists>e. getElementById (example_page [] (example_marked ''Introductio'' ''userBookmark'') [])
           (id' (example_capture ''x'')) = Some e \<and>
        data_bookmark_type e = Some ''userBookmark'')"
proof -
  have p: "ebBookmarksCheckForCurrentPage (example_page [] example_heading []) (location (example_capture ''x''))"
    "ebBookmarksCheckForCurrentPage (example_page [] example_heading []) (location example_visit)"
    by (simp_all add: ebBookmarksCheckForCurrentPage_def example_page_def)
  have "\<exists>e. getElementById (example_page [] (example_marked ''Introductio'' ''userBookmark'') [])
           (id' (example_capture ''x'')) = Some e \<and>
        data_bookmark_type e = Some ''userBookmark''"
    using userBookmark_precedence[OF mark_example, of "example_capture ''x''" example_visit] p
    by simp
  then show ?thesis using mark_example p by simp
qed

text \<open>
  Claim C10: what \<^verbatim>\<open>ebBookmarksCleanLastLocations\<close> leaves is the storage it found
  without some entries, each of them a record of the given title under a key with the
  bookmark prefix and the last-location segment. Records under other keys (the
  UserBookmarks), records of other titles and entries that are no bookmarks stay as they
  are, in their order.
\<close>

theorem clean_frame:
  assumes "ebBookmarksCleanLastLocations now t s = Inr s'"
  shows "\<exists>keep. localStorage s' = filter keep (localStorage s) \<and>
           (\<forall>k v. (k, v) \<in> set (localStorage s) \<and> \<not> keep (k, v) \<longrightarrow>
              lastLocation_key k \<and> (\<exists>b. v = Record b \<and> bookTitle b = t))"
proof -
  from assms obtain bs where bs: "collect_lastLocations t (localStorage s) = Inr bs"
    by (auto simp: clean_char split: sum.splits)
  define L where "L = fst (retained_lastLocations now bs s)"
  have "localStorage s' = filter (\<lambda>kv. \<not> unmatched t L kv) (localStorage s)"
    using assms bs by (auto simp: clean_char L_def)
  moreover have "\<forall>k v. (k, v) \<in> set (localStorage s) \<and> \<not> \<not> unmatched t L (k, v) \<longrightarrow>
              lastLocation_key k \<and> (\<exists>b. v = Record b \<and> bookTitle b = t)"
    using unmatched_cases by blast
  ultimately show ?thesis by blast
qed

text \<open>
  A storage with three sessions of the book, its UserBookmark, a last location of
  another book and an entry of another script: only the sessions 1000 and 2000 go.
\<close>

theorem clean_frame_witness:
  "ebBookmarksCleanLastLocations 10 ''B''
     (example_state [example_entry 1000, example_entry 2000, example_entry 3000,
        (''bookmark-b-userBookmark'', Record example_userBookmark),
        (''bookmark-c-lastLocation-1000'', Record example_other),
        (''theme'', Raw ''dark'')] (Some 4000))
   = Inr (example_state [example_entry 3000,
        (''bookmark-b-userBookmark'', Record example_userBookmark),
        (''bookmark-c-lastLocation-1000'', Record example_other),
        (''theme'', Raw ''dark'')] (Some 4000)) \<and>
   (\<exists>keep. localStorage (example_state [example_entry 3000,
        (''bookmark-b-userBookmark'', Record example_userBookmark),
        (''bookmark-c-lastLocation-1000'', Record example_other),
        (''theme'', Raw ''dark'')] (Some 4000)) =
      filter keep (localStorage (example_state [example_entry 1000, example_entry 2000, example_entry 3000,
        (''bookmark-b-userBookmark'', Record example_userBookmark),
        (''bookmark-c-lastLocation-1000'', Record example_other),
        (''theme'', Raw ''dark'')] (Some 4000))) \<and>
      (\<forall>k v. (k, v) \<in> set (localStorage (example_state [example_entry 1000, example_entry 2000, example_entry 3000,
        (''bookmark-b-userBookmark'', Record example_userBookmark),
        (''bookmark-c-lastLocation-1000'', Record example_other),
        (''theme'', Raw ''dark'')] (Some 4000))) \<and> \<not> keep (k, v) \<longrightarrow>
          lastLocation_key k \<and> (\<exists>b. v = Record b \<and> bookTitle b = ''B'')))"
  using clean_example_4 clean_frame[OF clean_example_4] by blast

section \<open>Further properties\<close>

text \<open>
  Once the session identifier exists, pruning a title is idempotent on every storage
  with distinct keys in which each last-location key of the title includes the sessionDate
  of its own record and of no other record of the title. The second run returns the state
  the first run left.
\<close>

theorem clean_idempotent:
  assumes session: "sessionDate_item s = Some n"
    and dist: "distinct (map fst (localStorage s))"
    and own: "own_sessionDate_only t (localStorage s)"
    and run: "ebBookmarksCleanLastLocations now t s = Inr s'"
  shows "ebBookmarksCleanLastLocations now' t s' = Inr s'"
proof -
  define ls where "ls = localStorage s"
  define TE where "TE = title_entries t ls"
  define bs where "bs = map snd TE"
  define L where "L = fst (retained_lastLocations now bs s)"
  define prior :: "bookmark \<Rightarrow> bool" where "prior = (\<lambda>l. sessionDate l \<noteq> Stored n)"
  have coll: "collect_lastLocations t ls = Inr bs"
    using run collect_title_entries[of t ls]
    by (auto simp: clean_char ls_def bs_def TE_def split: sum.splits)
  have snd_r: "snd (retained_lastLocations now bs s) = s"
    using session by (simp add: retained_session)
  have s': "s' = s\<lparr>localStorage := filter (\<lambda>kv. \<not> unmatched t L kv) ls\<rparr>"
    using run coll snd_r by (simp add: clean_char ls_def L_def)
  have Lsub: "set L \<subseteq> set bs" and Llen: "length L \<le> 2"
    and Lprior: "length (filter prior L) \<le> 1"
    unfolding prior_def using retained_props[OF session L_def] by auto
  have Lsub': "set L \<subseteq> snd ` set (title_entries t ls)"
    using Lsub by (simp add: bs_def TE_def)
  define ls2 where "ls2 = filter (\<lambda>kv. \<not> unmatched t L kv) ls"
  have session': "sessionDate_item s' = Some n" using s' session by simp
  have ls2: "localStorage s' = ls2" using s' by (simp add: ls2_def)
  have "title_entries t ls2 = filter (\<lambda>kb. \<not> unmatched t L (fst kb, Record (snd kb))) TE"
    by (simp add: ls2_def TE_def title_entries_filter)
  also have "\<dots> = filter (\<lambda>kb. snd kb \<in> set L) TE"
  proof (rule filter_cong[OF refl])
    fix kb assume kb: "kb \<in> set TE"
    then have t: "lastLocation_key (fst kb) \<and> t = bookTitle (snd kb)"
      unfolding TE_def
    proof (induction ls)
      case Nil
      then show ?case by simp
    next
      case (Cons kv ls)
      obtain k v where "kv = (k, v)" by (cases kv)
      with Cons show ?case by (cases v) (auto split: if_splits)
    qed
    have "(matches (fst kb) L \<noteq> 0) = (snd kb \<in> set L)"
      using own_matches[OF _ _ Lsub', of "fst kb" "snd kb"] own dist kb
      by (simp add: ls_def TE_def)
    with t show "(\<not> unmatched t L (fst kb, Record (snd kb))) = (snd kb \<in> set L)"
      by auto
  qed
  finally have TE2: "title_entries t ls2 = filter (\<lambda>kb. snd kb \<in> set L) TE" .
  define bs2 where "bs2 = map snd (title_entries t ls2)"
  have bs2: "bs2 = filter (\<lambda>b. b \<in> set L) bs"
    by (simp add: bs2_def TE2 bs_def filter_map comp_def)
  have dbs: "distinct bs"
    using own_distinct_records[OF own dist] by (simp add: bs_def TE_def ls_def)
  have set2: "set bs2 = set L" using Lsub by (auto simp: bs2)
  have d2: "distinct bs2" using dbs by (simp add: bs2)
  have "length bs2 = card (set bs2)" using d2 by (rule distinct_card[symmetric])
  then have "length bs2 = card (set L)" by (simp only: set2)
  then have len2: "length bs2 \<le> 2" using Llen card_length[of L] by linarith
  have "distinct (filter prior bs2)" using d2 by simp
  then have "length (filter prior bs2) = card (set (filter prior bs2))"
    by (rule distinct_card[symmetric])
  moreover have "set (filter prior bs2) = set (filter prior L)" by (simp add: set2)
  ultimately have "length (filter prior bs2) = card (set (filter prior L))" by (simp only:)
  moreover have "card (set (filter prior L)) \<le> length (filter prior L)" by (rule card_length)
  ultimately have prior2: "length (filter prior bs2) \<le> 1" using Lprior by linarith
  obtain bs' where bs': "collect_lastLocations t ls2 = Inr bs'"
    using collect_filter_total[OF coll] unfolding ls2_def by blast
  then have bs'2: "bs' = bs2" using collect_title_entries by (simp add: bs2_def)
  define L2 where "L2 = fst (retained_lastLocations now' bs2 s')"
  have "set L2 = set bs2"
    unfolding L2_def using retained_small[OF session' len2] prior2 by (simp add: prior_def)
  then have "set L2 = set L" by (simp only: set2)
  then have same: "\<And>kv. unmatched t L2 kv = unmatched t L kv"
    by (rule unmatched_set)
  have snd_r2: "snd (retained_lastLocations now' bs2 s') = s'"
    using session' by (simp add: retained_session)
  have "ebBookmarksCleanLastLocations now' t s' =
      Inr (s'\<lparr>localStorage := filter (\<lambda>kv. \<not> unmatched t L2 kv) ls2\<rparr>)"
    using bs' bs'2 snd_r2 ls2 by (simp add: clean_char L2_def)
  also have "filter (\<lambda>kv. \<not> unmatched t L2 kv) ls2 = ls2"
    by (simp add: same ls2_def)
  finally show ?thesis using ls2 by simp
qed

text \<open>
  The sessions 1000, 2000 and 3000, the last being the current one: the first run deletes
  the entry of session 1000, the second deletes nothing.
\<close>

theorem clean_idempotent_witness:
  "sessionDate_item (example_state [example_entry 1000, example_entry 2000, example_entry 3000] (Some 3000)) = Some 3000 \<and>
   distinct (map fst (localStorage (example_state [example_entry 1000, example_entry 2000, example_entry 3000] (Some 3000)))) \<and>
   own_sessionDate_only ''B'' (localStorage (example_state [example_entry 1000, example_entry 2000, example_entry 3000] (Some 3000))) \<and>
   ebBookmarksCleanLastLocations 10 ''B''
     (example_state [example_entry 1000, example_entry 2000, example_entry 3000] (Some 3000))
   = Inr (example_state [example_entry 2000, example_entry 3000] (Some 3000)) \<and>
   ebBookmarksCleanLastLocations 11 ''B''
     (example_state [example_entry 2000, example_entry 3000] (Some 3000))
   = Inr (example_state [example_entry 2000, example_entry 3000] (Some 3000))"
proof -
  let ?s = "example_state [example_entry 1000, example_entry 2000, example_entry 3000] (Some 3000)"
  have 1: "sessionDate_item ?s = Some 3000" by (simp add: example_state_def)
  have 2: "distinct (map fst (localStorage ?s))" by (simp add: example_state_def example_entry_def)
  have 3: "own_sessionDate_only ''B'' (localStorage ?s)"
    using own_example_3 by (simp add: example_state_def)
  show ?thesis
    using 1 2 3 clean_example_3 clean_idempotent[OF 1 2 3 clean_example_3, of 11] by simp
qed

text \<open>
  Two UserBookmark captures for one title derive the same key, which holds the type
  only, so afterwards storage has exactly one UserBookmark record of the title, the second
  capture's; the keys that LastLocation captures of different sessions derive differ, and
  none is the UserBookmark key. The second call may be made on another page of the book:
  it starts from the storage the first call left. The slug of the title is assumed not to
  turn the UserBookmark key into a last-location key, and the UserBookmark records already
  stored for the title to sit under the derived key, as they do when this function has
  stored them.
\<close>

theorem userBookmark_twice:
  fixes slugify :: "string \<Rightarrow> string"
  assumes nll: "\<not> lastLocation_key (''bookmark-'' @ slugify T @ ''-userBookmark'')"
    and dist: "distinct (map fst (localStorage s))"
    and inv: "\<forall>kv \<in> set (localStorage s).
                userBookmark_of T kv \<longrightarrow> fst kv = ''bookmark-'' @ slugify T @ ''-userBookmark''"
    and t1: "body_title s = T"
    and cap1: "capture slugify now1 ''userBookmark'' e1 d1 s = Inr (b1, m1)"
    and run1: "ebBookmarksSetBookmark slugify now1 ''userBookmark'' e1 d1 s = Inr s1"
    and t2: "body_title s2 = T" and ls2: "localStorage s2 = localStorage s1"
    and cap2: "capture slugify now2 ''userBookmark'' e2 d2 s2 = Inr (b2, m2)"
    and run2: "ebBookmarksSetBookmark slugify now2 ''userBookmark'' e2 d2 s2 = Inr s3"
  shows "key' b1 = ''bookmark-'' @ slugify T @ ''-userBookmark'' \<and>
         key' b2 = ''bookmark-'' @ slugify T @ ''-userBookmark'' \<and>
         filter (userBookmark_of T) (localStorage s3) =
           [(''bookmark-'' @ slugify T @ ''-userBookmark'', Record b2)] \<and>
         (\<forall>nowa ea da sa ba ma nowb eb db sb bb mb.
            capture slugify nowa ''lastLocation'' ea da sa = Inr (ba, ma) \<and>
            capture slugify nowb ''lastLocation'' eb db sb = Inr (bb, mb) \<and>
            body_title sa = T \<and> body_title sb = T \<and>
            sessionDate_item ma \<noteq> sessionDate_item mb \<longrightarrow>
            key' ba \<noteq> key' bb \<and> key' ba \<noteq> ''bookmark-'' @ slugify T @ ''-userBookmark'')"
proof (intro conjI allI impI)
  show "key' b1 = ''bookmark-'' @ slugify T @ ''-userBookmark''"
    using capture_userBookmark(1)[OF cap1] t1 by simp
  show "key' b2 = ''bookmark-'' @ slugify T @ ''-userBookmark''"
    using capture_userBookmark(1)[OF cap2] t2 by simp
  have d1: "distinct (map fst (localStorage s1))"
    and i1: "\<forall>kv \<in> set (localStorage s1).
        userBookmark_of T kv \<longrightarrow> fst kv = ''bookmark-'' @ slugify T @ ''-userBookmark''"
    using setBookmark_user_single(3,4)[OF _ dist _ cap1 run1] nll inv t1 by simp_all
  show "filter (userBookmark_of T) (localStorage s3) =
      [(''bookmark-'' @ slugify T @ ''-userBookmark'', Record b2)]"
    using setBookmark_user_single(2)[OF _ _ _ cap2 run2] nll d1 i1 t2 ls2 by simp
next
  fix nowa ea da sa ba ma nowb eb db sb bb mb
  assume a: "capture slugify nowa ''lastLocation'' ea da sa = Inr (ba, ma) \<and>
            capture slugify nowb ''lastLocation'' eb db sb = Inr (bb, mb) \<and>
            body_title sa = T \<and> body_title sb = T \<and>
            sessionDate_item ma \<noteq> sessionDate_item mb"
  obtain n where n: "sessionDate_item ma = Some n"
    "key' ba = ''bookmark-'' @ slugify T @ ''-lastLocation-'' @ ToString n"
    using capture_lastLocation[of slugify nowa ea da sa ba ma] a by auto
  obtain k where k: "sessionDate_item mb = Some k"
    "key' bb = ''bookmark-'' @ slugify T @ ''-lastLocation-'' @ ToString k"
    using capture_lastLocation[of slugify nowb eb db sb bb mb] a by auto
  have "n \<noteq> k" using a n k by auto
  then show "key' ba \<noteq> key' bb" using n k ToString_inj by auto
  have "lastLocation_key (key' ba)"
  proof -
    have "sublist ''-lastLocation-''
        ((''bookmark-'' @ slugify T) @ ''-lastLocation-'' @ ToString n)"
      by (rule sublist_appendI)
    then show ?thesis using n(2) by (simp add: lastLocation_key_def startsWith_def includes_str_def)
  qed
  then show "key' ba \<noteq> ''bookmark-'' @ slugify T @ ''-userBookmark''" using nll by auto
qed

text \<open>
  Two captures on the heading of a page, with the descriptions \<open>''first''\<close> and
  \<open>''second''\<close>, starting from an empty storage.
\<close>

theorem userBookmark_twice_witness:
  "\<not> lastLocation_key (''bookmark-'' @ example_slugify ''B'' @ ''-userBookmark'') \<and>
   capture example_slugify 10 ''userBookmark'' (Some example_heading) (Some ''first'')
     (example_page [] example_heading []) =
     Inr (example_capture ''first'', example_page [] example_heading []) \<and>
   ebBookmarksSetBookmark example_slugify 10 ''userBookmark'' (Some example_heading)
     (Some ''first'') (example_page [] example_heading []) =
     Inr (example_page [(''bookmark-b-userBookmark'', Record (example_capture ''first''))]
          (example_marked ''first'' ''userBookmark'') [example_capture ''first'']) \<and>
   ebBookmarksSetBookmark example_slugify 20 ''userBookmark''
     (Some (example_marked ''first'' ''userBookmark'')) (Some ''second'')
     (example_page [(''bookmark-b-userBookmark'', Record (example_capture ''first''))]
          (example_marked ''first'' ''userBookmark'') [example_capture ''first'']) =
     Inr (example_page [(''bookmark-b-userBookmark'', Record (example_capture ''second''))]
          (example_marked ''second'' ''userBookmark'') [example_capture ''second'']) \<and>
   key' (example_capture ''first'') = ''bookmark-'' @ example_slugify ''B'' @ ''-userBookmark'' \<and>
   key' (example_capture ''second'') = ''bookmark-'' @ example_slugify ''B'' @ ''-userBookmark'' \<and>
   filter (userBookmark_of ''B'')
     (localStorage (example_page [(''bookmark-b-userBookmark'', Record (example_capture ''second''))]
          (example_marked ''second'' ''userBookmark'') [example_capture ''second''])) =
     [(''bookmark-'' @ example_slugify ''B'' @ ''-userBookmark'', Record (example_capture ''second''))]"
proof -
  let ?s = "example_page [] example_heading []"
  let ?s1 = "example_page [(''bookmark-b-userBookmark'', Record (example_capture ''first''))]
          (example_marked ''first'' ''userBookmark'') [example_capture ''first'']"
  have nll: "\<not> lastLocation_key (''bookmark-'' @ example_slugify ''B'' @ ''-userBookmark'')"
    by (simp add: example_slugify_def)
  have dist: "distinct (map fst (localStorage ?s))" by simp
  have inv: "\<forall>kv \<in> set (localStorage ?s). userBookmark_of ''B'' kv \<longrightarrow>
      fst kv = ''bookmark-'' @ example_slugify ''B'' @ ''-userBookmark''" by simp
  have t1: "body_title ?s = ''B''" and t2: "body_title ?s1 = ''B''"
    by (simp_all add: example_page_def)
  have cap1: "capture example_slugify 10 ''userBookmark'' (Some example_heading) (Some ''first'') ?s =
     Inr (example_capture ''first'', ?s)"
    by (simp add: capture_example)
  have cap2: "capture example_slugify 20 ''userBookmark''
     (Some (example_marked ''first'' ''userBookmark'')) (Some ''second'') ?s1 =
     Inr (example_capture ''second'', ?s1)"
    by (simp add: capture_example)
  show ?thesis
    using userBookmark_twice[OF nll dist inv t1 cap1 setBookmark_example_1 t2 refl cap2
        setBookmark_example_2]
      nll cap1 setBookmark_example_1 setBookmark_example_2
    by simp
qed

text \<open>
  In a session that has its identifier, a LastLocation capture derives the key of the
  type and the session, and when \<^verbatim>\<open>ebBookmarksSetBookmark\<close> returns, the record is
  stored under that key, provided at most one last-location record of the title is
  enumerated after the key once the record is written.
\<close>

theorem lastLocation_stored:
  assumes session: "sessionDate_item s = Some n"
    and cap: "capture slugify now ''lastLocation'' e d s = Inr (b, m)"
    and run: "ebBookmarksSetBookmark slugify now ''lastLocation'' e d s = Inr s'"
    and pos: "length (title_entries (body_title s)
                (tl (dropWhile (\<lambda>kv. fst kv \<noteq> key' b)
                       (setItem (localStorage s) (key' b) (Record b))))) \<le> 1"
  shows "key' b = ''bookmark-'' @ slugify (body_title s) @ ''-lastLocation-'' @ ToString n \<and>
         getItem (localStorage s') (key' b) = Some (Record b)"
proof -
  note c = capture_lastLocation_session[OF session cap]
  define K where "K = key' b"
  define ls1 where "ls1 = setItem (localStorage s) K (Record b)"
  have Kn: "K = (''bookmark-'' @ slugify (body_title s)) @ ''-lastLocation-'' @ ToString n"
    using c(4) by (simp add: K_def)
  have key: "lastLocation_key K"
  proof -
    have "sublist ''-lastLocation-'' K" unfolding Kn by (rule sublist_appendI)
    then show ?thesis by (simp add: lastLocation_key_def startsWith_def includes_str_def Kn)
  qed
  have incl: "includes_str K (ToString n)"
  proof -
    have "K = (''bookmark-'' @ slugify (body_title s) @ ''-lastLocation-'') @ ToString n"
      by (simp add: Kn)
    then show ?thesis unfolding includes_str_def by (metis sublist_append_leftI)
  qed
  obtain pre post where sp: "ls1 = pre @ (K, Record b) # post" "K \<notin> fst ` set pre"
    "tl (dropWhile (\<lambda>kv. fst kv \<noteq> K) ls1) = post"
    using setItem_split[of "localStorage s" K "Record b"] unfolding ls1_def by blast
  have "length (title_entries (body_title s) post) \<le> 1"
    using pos sp(3) by (simp add: K_def ls1_def)
  then have near: "among_last_two (body_title s) (K, Record b) ls1"
    unfolding among_last_two_def using sp(1,2) by auto
  have chk: "ebBookmarksCheckForBookmarks now (s\<lparr>localStorage := ls1\<rparr>) = Inr s'"
    using run cap c(1) by (simp add: ebBookmarksSetBookmark_def ls1_def K_def)
  have "among_last_two (body_title s) (K, Record b) (localStorage s')"
    using check_keeps_current[OF key incl c(3) c(2) _ _ chk] session near by simp
  then have "getItem (localStorage s') K = Some (Record b)" by (rule among_last_two_getItem)
  then show ?thesis using c(4) by (simp add: K_def)
qed

text \<open>
  The session 1000 leaves a page while storage holds the records of the sessions 2000
  and 3000: its key is new and enumerated last, and its record is stored.
\<close>

theorem lastLocation_stored_witness:
  "sessionDate_item (example_page [example_entry 2000, example_entry 3000] example_heading []) = Some 1000 \<and>
   capture example_slugify 10 ''lastLocation'' (Some example_heading) None
     (example_page [example_entry 2000, example_entry 3000] example_heading []) =
     Inr (example_leave, example_page [example_entry 2000, example_entry 3000] example_heading []) \<and>
   ebBookmarksSetBookmark example_slugify 10 ''lastLocation'' (Some example_heading) None
     (example_page [example_entry 2000, example_entry 3000] example_heading []) =
     Inr ((example_page [example_entry 3000, (example_key 1000, Record example_leave)] example_heading [])
          \<lparr>lastLocationsList := [example_lastLocation 3000]\<rparr>) \<and>
   key' example_leave = ''bookmark-'' @ example_slugify ''B'' @ ''-lastLocation-'' @ ToString 1000 \<and>
   getItem (localStorage
      ((example_page [example_entry 3000, (example_key 1000, Record example_leave)] example_heading [])
          \<lparr>lastLocationsList := [example_lastLocation 3000]\<rparr>)) (key' example_leave)
     = Some (Record example_leave)"
proof -
  let ?s = "example_page [example_entry 2000, example_entry 3000] example_heading []"
  have sd: "sessionDate_item ?s = Some 1000" and t: "body_title ?s = ''B''"
    by (simp_all add: example_page_def)
  have pos: "length (title_entries (body_title ?s)
                (tl (dropWhile (\<lambda>kv. fst kv \<noteq> key' example_leave)
                       (setItem (localStorage ?s) (key' example_leave) (Record example_leave))))) \<le> 1"
    by (simp add: example_entry_def)
  note r = lastLocation_stored[OF sd capture_leave_example setBookmark_leave_example pos,
      unfolded t]
  show ?thesis
    using r sd capture_leave_example setBookmark_leave_example by blast
qed

text \<open>
  Pruning a title, in a session that has its identifier and on keys that include the
  sessionDate of their own record only, leaves at most two last-location records of the
  title, at most one of them of another session.
\<close>

theorem clean_leaves_two:
  assumes session: "sessionDate_item s = Some n"
    and dist: "distinct (map fst (localStorage s))"
    and own: "own_sessionDate_only t (localStorage s)"
    and run: "ebBookmarksCleanLastLocations now t s = Inr s'"
  shows "length (title_entries t (localStorage s')) \<le> 2 \<and>
         length (filter (\<lambda>kb. sessionDate (snd kb) \<noteq> Stored n) (title_entries t (localStorage s'))) \<le> 1"
proof -
  define ls where "ls = localStorage s"
  define TE where "TE = title_entries t ls"
  define bs where "bs = map snd TE"
  define L where "L = fst (retained_lastLocations now bs s)"
  define prior :: "bookmark \<Rightarrow> bool" where "prior = (\<lambda>l. sessionDate l \<noteq> Stored n)"
  have coll: "collect_lastLocations t ls = Inr bs"
    using run collect_title_entries[of t ls]
    by (auto simp: clean_char ls_def bs_def TE_def split: sum.splits)
  have snd_r: "snd (retained_lastLocations now bs s) = s"
    using session by (simp add: retained_session)
  have "s' = s\<lparr>localStorage := filter (\<lambda>kv. \<not> unmatched t L kv) ls\<rparr>"
    using run coll snd_r by (simp add: clean_char ls_def L_def)
  then have s': "localStorage s' = filter (\<lambda>kv. \<not> unmatched t L kv) ls" by simp
  have Lsub: "set L \<subseteq> set bs" and Llen: "length L \<le> 2"
    and Lprior: "length (filter prior L) \<le> 1"
    unfolding prior_def using retained_props[OF session L_def] by auto
  have Lsub': "set L \<subseteq> snd ` set (title_entries t ls)"
    using Lsub by (simp add: bs_def TE_def)
  have "title_entries t (localStorage s') =
      filter (\<lambda>kb. \<not> unmatched t L (fst kb, Record (snd kb))) TE"
    by (simp add: s' TE_def title_entries_filter)
  also have "\<dots> = filter (\<lambda>kb. snd kb \<in> set L) TE"
  proof (rule filter_cong[OF refl])
    fix kb assume kb: "kb \<in> set TE"
    then have t: "lastLocation_key (fst kb) \<and> t = bookTitle (snd kb)"
      unfolding TE_def by (rule title_entries_mem)
    have "(matches (fst kb) L \<noteq> 0) = (snd kb \<in> set L)"
      using own_matches[OF _ _ Lsub', of "fst kb" "snd kb"] own dist kb
      by (simp add: ls_def TE_def)
    with t show "(\<not> unmatched t L (fst kb, Record (snd kb))) = (snd kb \<in> set L)"
      by auto
  qed
  finally have TE2: "title_entries t (localStorage s') = filter (\<lambda>kb. snd kb \<in> set L) TE" .
  define bs2 where "bs2 = map snd (title_entries t (localStorage s'))"
  have bs2: "bs2 = filter (\<lambda>b. b \<in> set L) bs"
    by (simp add: bs2_def TE2 bs_def filter_map comp_def)
  have dbs: "distinct bs"
    using own_distinct_records[OF own dist] by (simp add: bs_def TE_def ls_def)
  have set2: "set bs2 = set L" using Lsub by (auto simp: bs2)
  have d2: "distinct bs2" using dbs by (simp add: bs2)
  have "length bs2 = card (set bs2)" using d2 by (rule distinct_card[symmetric])
  then have "length bs2 = card (set L)" by (simp only: set2)
  then have len2: "length bs2 \<le> 2" using Llen card_length[of L] by linarith
  have "distinct (filter prior bs2)" using d2 by simp
  then have "length (filter prior bs2) = card (set (filter prior bs2))"
    by (rule distinct_card[symmetric])
  moreover have "set (filter prior bs2) = set (filter prior L)" by (simp add: set2)
  ultimately have "length (filter prior bs2) = card (set (filter prior L))" by (simp only:)
  moreover have "card (set (filter prior L)) \<le> length (filter prior L)" by (rule card_length)
  ultimately have prior2: "length (filter prior bs2) \<le> 1" using Lprior by linarith
  have "length (title_entries t (localStorage s')) = length bs2" by (simp add: bs2_def)
  moreover have "length (filter (\<lambda>kb. sessionDate (snd kb) \<noteq> Stored n) (title_entries t (localStorage s')))
      = length (filter prior bs2)"
    by (simp add: bs2_def prior_def filter_map comp_def)
  ultimately show ?thesis using len2 prior2 by simp
qed

text \<open>
  The sessions 1000, 2000 and 3000, the last being the current one.
\<close>

theorem clean_leaves_two_witness:
  "sessionDate_item (example_state [example_entry 1000, example_entry 2000, example_entry 3000] (Some 3000)) = Some 3000 \<and>
   distinct (map fst (localStorage (example_state [example_entry 1000, example_entry 2000, example_entry 3000] (Some 3000)))) \<and>
   own_sessionDate_only ''B'' (localStorage (example_state [example_entry 1000, example_entry 2000, example_entry 3000] (Some 3000))) \<and>
   ebBookmarksCleanLastLocations 10 ''B''
     (example_state [example_entry 1000, example_entry 2000, example_entry 3000] (Some 3000))
   = Inr (example_state [example_entry 2000, example_entry 3000] (Some 3000)) \<and>
   length (title_entries ''B'' (localStorage (example_state [example_entry 2000, example_entry 3000] (Some 3000)))) \<le> 2 \<and>
   length (filter (\<lambda>kb. sessionDate (snd kb) \<noteq> Stored 3000)
     (title_entries ''B'' (localStorage (example_state [example_entry 2000, example_entry 3000] (Some 3000))))) \<le> 1"
proof -
  let ?s = "example_state [example_entry 1000, example_entry 2000, example_entry 3000] (Some 3000)"
  have 1: "sessionDate_item ?s = Some 3000" by (simp add: example_state_def)
  have 2: "distinct (map fst (localStorage ?s))" by (simp add: example_state_def example_entry_def)
  have 3: "own_sessionDate_only ''B'' (localStorage ?s)"
    using own_example_3 by (simp add: example_state_def)
  show ?thesis
    using 1 2 3 clean_example_3 clean_leaves_two[OF 1 2 3 clean_example_3] by simp
qed

text \<open>
  From the second call on, \<^verbatim>\<open>ebBookmarksSessionDate\<close> returns one and the same value
  and changes nothing, and that value reads as the numeral of what the first call
  returned.
\<close>

theorem sessionDate_stable_after_first:
  "ebBookmarksSessionDate now3 (snd (ebBookmarksSessionDate now2 (snd (ebBookmarksSessionDate now1 s))))
     = ebBookmarksSessionDate now2 (snd (ebBookmarksSessionDate now1 s)) \<and>
   ToString_sd (fst (ebBookmarksSessionDate now2 (snd (ebBookmarksSessionDate now1 s))))
     = ToString_sd (fst (ebBookmarksSessionDate now1 s))"
  by (cases "sessionDate_item s") (simp_all add: ebBookmarksSessionDate_def)

text \<open>
  In a session with the identifier \<open>n\<close>, \<^verbatim>\<open>ebBookmarksCheckForBookmarks\<close> passes
  no last-location record of session \<open>n\<close> on to the marking and the listing, and the
  list of last locations it renders shows none.
\<close>

theorem current_session_not_listed:
  assumes "sessionDate_item s = Some n"
    and "ebBookmarksCheckForBookmarks now s = Inr s'"
  shows "(\<exists>s1 bookmarks. clean_titles now (map fst (localStorage s)) s = Inr s1 \<and>
            visible_bookmarks now (localStorage s1) s1 = Inr (bookmarks, s1) \<and>
            (\<forall>b \<in> set bookmarks. type' b = ''lastLocation'' \<longrightarrow> sessionDate b \<noteq> Stored n)) \<and>
         (\<forall>b \<in> set (lastLocationsList s'). sessionDate b \<noteq> Stored n)"
proof -
  from assms(2) obtain s1 bookmarks s2 s3 where
    1: "clean_titles now (map fst (localStorage s)) s = Inr s1" and
    2: "visible_bookmarks now (localStorage s1) s1 = Inr (bookmarks, s2)" and
    3: "ebBookmarksMarkBookmarks bookmarks s2 = Inr s3" and
    4: "ebBookmarksListBookmarks now bookmarks s3 = Inr s'"
    by (auto simp: ebBookmarksCheckForBookmarks_def split: sum.splits)
  obtain ls1 where "s1 = s\<lparr>localStorage := ls1\<rparr>"
    using clean_titles_session[OF assms(1) 1] by blast
  then have sd1: "sessionDate_item s1 = Some n" using assms(1) by simp
  have v: "s2 = s1" "\<forall>b \<in> set bookmarks. type' b = ''lastLocation'' \<longrightarrow> sessionDate b \<noteq> Stored n"
    using visible_session[OF sd1 2] by auto
  have "sessionDate_item s3 = Some n"
    using 3 sd1 v(1) mark_each_session unfolding ebBookmarksMarkBookmarks_def by fastforce
  then have "\<forall>b \<in> set (lastLocationsList s'). sessionDate b \<noteq> Stored n"
    using list_each_lists[of "s3\<lparr>bookmarksList := [], lastLocationsList := []\<rparr>" n now bookmarks s'] 4
    by (simp add: ebBookmarksListBookmarks_def)
  with 1 2 v show ?thesis by blast
qed

text \<open>
  The record of the current session 1000, enumerated last: it is not listed, and here it
  stays in storage.
\<close>

theorem current_session_not_listed_witness:
  "sessionDate_item (example_state [example_entry 2000, example_entry 1000] (Some 1000)) = Some 1000 \<and>
   ebBookmarksCheckForBookmarks 10
     (example_state [example_entry 2000, example_entry 1000] (Some 1000))
   = Inr ((example_state [example_entry 2000, example_entry 1000] (Some 1000))
            \<lparr>lastLocationsList := [example_lastLocation 2000]\<rparr>) \<and>
   example_lastLocation 1000 \<notin> set (lastLocationsList
      ((example_state [example_entry 2000, example_entry 1000] (Some 1000))
            \<lparr>lastLocationsList := [example_lastLocation 2000]\<rparr>)) \<and>
   getItem (localStorage ((example_state [example_entry 2000, example_entry 1000] (Some 1000))
            \<lparr>lastLocationsList := [example_lastLocation 2000]\<rparr>)) (example_key 1000)
     = Some (Record (example_lastLocation 1000))"
proof -
  let ?s = "example_state [example_entry 2000, example_entry 1000] (Some 1000)"
  have sd: "sessionDate_item ?s = Some 1000" by (simp add: example_state_def)
  have "\<forall>b \<in> set (lastLocationsList (?s\<lparr>lastLocationsList := [example_lastLocation 2000]\<rparr>)).
      sessionDate b \<noteq> Stored 1000"
    using current_session_not_listed[OF sd check_example_2] by blast
  then have "example_lastLocation 1000 \<notin> set (lastLocationsList
      (?s\<lparr>lastLocationsList := [example_lastLocation 2000]\<rparr>))"
    by auto
  then show ?thesis
    using sd check_example_2 by (simp add: getItem_def example_state_def example_entry_def)
qed

text \<open>
  A description that is passed, and is not empty, is the description stored.
\<close>

theorem description_supplied:
  assumes "d \<noteq> []" and "capture slugify now typ element (Some d) s = Inr (b, s')"
  shows "description b = d"
  using assms
  by (auto simp: capture_def Let_def split_beta split: sum.splits option.splits)

theorem description_supplied_witness:
  "''first'' \<noteq> [] \<and>
   capture example_slugify 10 ''userBookmark'' (Some example_heading) (Some ''first'')
     (example_page [] example_heading []) =
     Inr (example_capture ''first'', example_page [] example_heading []) \<and>
   description (example_capture ''first'') = ''first''"
proof -
  have c: "capture example_slugify 10 ''userBookmark'' (Some example_heading) (Some ''first'')
     (example_page [] example_heading []) =
     Inr (example_capture ''first'', example_page [] example_heading [])"
    by (simp add: capture_example)
  have n: "''first'' \<noteq> []" by simp
  show ?thesis using description_supplied[OF n c] c by simp
qed

text \<open>
  When the first 50 characters of the text have a space or a full stop, the fallback
  description is the text before the last of them, and the ellipsis.
\<close>

theorem fallback_at_boundary:
  assumes "CHR '' '' \<in> set (take 50 text) \<or> CHR ''.'' \<in> set (take 50 text)"
  shows "\<exists>i < length (take 50 text).
           (text ! i = CHR '' '' \<or> text ! i = CHR ''.'') \<and>
           (\<forall>j. i < j \<and> j < length (take 50 text) \<longrightarrow>
                text ! j \<noteq> CHR '' '' \<and> text ! j \<noteq> CHR ''.'') \<and>
           fallback_description text = take i text @ ellipsis_suffix"
proof -
  define d where "d = take 50 text"
  define a where "a = lastIndexOf d CHR '' ''"
  define b where "b = lastIndexOf d CHR ''.''"
  define e where "e = (if b > a then b else a)"
  have nth: "\<And>j. j < length d \<Longrightarrow> d ! j = text ! j" by (simp add: d_def)
  have ra: "-1 \<le> a" "a < int (length d)" and rb: "-1 \<le> b" "b < int (length d)"
    using lastIndexOf_range[of d] by (auto simp: a_def b_def)
  have ge: "a \<le> e" "b \<le> e" by (auto simp: e_def)
  have pos: "0 \<le> e"
  proof (cases "CHR '' '' \<in> set d")
    case True
    then have "0 \<le> a" using lastIndexOf_present[of "CHR '' ''" d] by (simp add: a_def)
    with ge show ?thesis by simp
  next
    case False
    then have "CHR ''.'' \<in> set d" using assms by (simp add: d_def)
    then have "0 \<le> b" using lastIndexOf_present[of "CHR ''.''" d] by (simp add: b_def)
    with ge show ?thesis by simp
  qed
  have lt: "nat e < length d" using ra rb pos by (auto simp: e_def split: if_splits)
  have at: "d ! nat e = CHR '' '' \<or> d ! nat e = CHR ''.''"
  proof (cases "b > a")
    case True
    then have "0 \<le> b" using ra by simp
    then have "CHR ''.'' \<in> set d" using lastIndexOf_absent[of "CHR ''.''" d] by (auto simp: b_def)
    then show ?thesis using lastIndexOf_present[of "CHR ''.''" d] True by (simp add: e_def b_def)
  next
    case False
    then have "0 \<le> a" using pos by (simp add: e_def)
    then have "CHR '' '' \<in> set d" using lastIndexOf_absent[of "CHR '' ''" d] by (auto simp: a_def)
    then show ?thesis using lastIndexOf_present[of "CHR '' ''" d] False by (simp add: e_def a_def)
  qed
  have after: "\<forall>j. nat e < j \<and> j < length d \<longrightarrow> d ! j \<noteq> CHR '' '' \<and> d ! j \<noteq> CHR ''.''"
  proof (intro allI impI)
    fix j assume j: "nat e < j \<and> j < length d"
    then have "a < int j" "b < int j" using pos by (auto simp: e_def split: if_splits)
    then show "d ! j \<noteq> CHR '' '' \<and> d ! j \<noteq> CHR ''.''"
      using lastIndexOf_last[of d _ j] j by (simp add: a_def b_def)
  qed
  have "fallback_description text = slice_0 d e @ ellipsis_suffix"
    by (simp add: fallback_description_def Let_def d_def a_def b_def e_def)
  also have "slice_0 d e = take (nat e) d" using pos by (simp add: slice_0_def)
  also have "take (nat e) d = take (nat e) text"
  proof -
    have "nat e \<le> 50" using lt by (simp add: d_def)
    then show ?thesis by (simp add: d_def min_absorb1)
  qed
  finally have f: "fallback_description text = take (nat e) text @ ellipsis_suffix" .
  show ?thesis
    unfolding d_def[symmetric]
    using lt at after f nth by (intro exI[of _ "nat e"]) auto
qed

text \<open>
  The last space among the first 50 characters is at index 46.
\<close>

theorem fallback_at_boundary_witness:
  "CHR '' '' \<in> set (take 50 ''It is a truth universally acknowledged, that a single man'') \<and>
   fallback_description ''It is a truth universally acknowledged, that a single man'' =
     ''It is a truth universally acknowledged, that a'' @ ellipsis_suffix"
proof -
  let ?t = "''It is a truth universally acknowledged, that a single man''"
  have h: "CHR '' '' \<in> set (take 50 ?t) \<or> CHR ''.'' \<in> set (take 50 ?t)" by simp
  obtain i where i: "i < length (take 50 ?t)"
    "?t ! i = CHR '' '' \<or> ?t ! i = CHR ''.''"
    "\<forall>j. i < j \<and> j < length (take 50 ?t) \<longrightarrow> ?t ! j \<noteq> CHR '' '' \<and> ?t ! j \<noteq> CHR ''.''"
    "fallback_description ?t = take i ?t @ ellipsis_suffix"
    using fallback_at_boundary[OF h] by blast
  have "i = 46"
  proof (rule ccontr)
    assume ne: "i \<noteq> 46"
    have "?t ! 46 = CHR '' ''" by simp
    then have "\<not> i < 46" using i(3) by auto
    then have "i \<in> {47, 48, 49}" using i(1) ne by auto
    then show False using i(2) by auto
  qed
  then show ?thesis using i(4) by simp
qed

end
